theory Spec2Isabelle
  imports Main "HOL-Library.AList"
begin

section \<open>Data model\<close>

text \<open>
  The installer talks to three things outside itself: the OVH HTTP API, TCP port 22 of
  the new hosts, and the shell. Every such interaction is recorded as an \<open>event\<close>, in
  the order it happens, together with its outcome. The answers of the outside world are
  given by an \<open>env\<close>: each answer may depend on everything that happened before
  (the trace so far) and on the request.
\<close>

text \<open>
  Errors of the OVH client library. The source names only the base class
  \<open>ovh.exceptions.APIError\<close>; what matters here is whether a failure is a network
  failure or an HTTP status code.
\<close>

datatype api_error = NetworkError | HTTPError nat

definition permanent :: "api_error \<Rightarrow> bool" where
  "permanent e = (case e of NetworkError \<Rightarrow> False | HTTPError c \<Rightarrow> 400 \<le> c \<and> c < 500)"

text \<open>
  Python exceptions that the modelled code can raise. \<open>ValueError cmd code\<close> is the one
  \<open>stream_cmd\<close> raises, with the message "Command cmd returned code code".
\<close>

datatype error =
    APIError api_error
  | KeyError string
  | IndexError
  | StopIteration
  | ValueError string int
  | SystemExit int

datatype level = Debug | Info | Warn | Error | Critical

record flavor_json =
  flavor_osType :: string
  flavor_region :: string
  flavor_name :: string
  flavor_id :: string

record image_json =
  image_region :: string
  image_name :: string
  image_id :: string

record ssh_key_json =
  ssh_key_regions :: "string list"
  ssh_key_name :: string
  ssh_key_id :: string

record project_json =
  project_description :: string
  project_project_id :: string

text \<open>The answer to a status query: \<open>r['status']\<close> and the addresses of \<open>r['ipAddresses']\<close>.\<close>

record instance_json =
  status :: string
  ipAddresses :: "string list"

text \<open>The keyword arguments of the bulk creation request.\<close>

record post_body =
  post_serviceName :: string
  post_flavorId :: string
  post_imageId :: string
  post_name :: string
  post_region :: string
  post_sshKeyId :: string
  post_monthlyBilling :: bool
  post_number :: int

text \<open>An entry of the working set: the dict \<open>{'id': ...}\<close>, with \<open>'ip'\<close> once ssh answers.\<close>

record instance_entry =
  inst_id :: string
  inst_ip :: "string option"

text \<open>What \<open>write_config\<close> adds to \<open>dcos_config\<close>.\<close>

record dcos_config =
  master_list :: "string list"
  agent_list :: "string list"
  ssh_user :: string

datatype log_arg = Str string | Num int | Obj instance_json

datatype event =
    Log level string "log_arg list"
  | Sleep nat
  | HttpGet string "api_error option"
  | HttpPost string post_body "api_error option"
  | HttpDelete string "api_error option"
  | Connect string nat int
  | Cmd string int
  | Download "error option"
  | WriteFile string dcos_config
  | Input string

record env =
  api_project_list :: "event list \<Rightarrow> string \<Rightarrow> api_error + string list"
  api_project :: "event list \<Rightarrow> string \<Rightarrow> api_error + project_json"
  api_flavors :: "event list \<Rightarrow> string \<Rightarrow> api_error + flavor_json list"
  api_images :: "event list \<Rightarrow> string \<Rightarrow> api_error + image_json list"
  api_ssh_keys :: "event list \<Rightarrow> string \<Rightarrow> api_error + ssh_key_json list"
  api_instance :: "event list \<Rightarrow> string \<Rightarrow> api_error + instance_json"
  api_bulk :: "event list \<Rightarrow> string \<Rightarrow> post_body \<Rightarrow> api_error + string list"
  api_delete :: "event list \<Rightarrow> string \<Rightarrow> api_error + unit"
  os_connect_ex :: "event list \<Rightarrow> string \<Rightarrow> nat \<Rightarrow> int"
  os_returncode :: "event list \<Rightarrow> string \<Rightarrow> int"
  os_download :: "event list \<Rightarrow> error option"

text \<open>The command line, after \<open>argparse\<close>.\<close>

record args =
  arg_url :: string
  arg_project :: string
  arg_flavor :: string
  arg_image :: string
  arg_ssh_key :: string
  arg_ssh_user :: string
  arg_region :: string
  arg_name :: string
  arg_masters :: int
  arg_agents :: int

datatype handler = Cleanup

text \<open>
  The mutable state of the run: the fields of the \<open>OVHInstances\<close> object (the private
  \<open>_flavors\<close> is \<open>priv_flavors\<close>, and so on; dicts are association lists in insertion
  order), the part of \<open>dcos_config\<close> that \<open>write_config\<close> sets, the handlers
  registered with \<open>atexit\<close>, and the trace of events so far.
\<close>

record state =
  instances :: "instance_entry list"
  priv_projects :: "(string \<times> project_json) list"
  priv_flavors :: "(string \<times> (string \<times> string) list) list"
  priv_images :: "(string \<times> (string \<times> string) list) list"
  priv_ssh_keys :: "(string \<times> (string \<times> string) list) list"
  project_id :: string
  config :: "dcos_config option"
  atexit_handlers :: "handler list"
  trace :: "event list"

section \<open>Effects\<close>

definition emit :: "event \<Rightarrow> state \<Rightarrow> state" where
  "emit ev s = s\<lparr>trace := trace s @ [ev]\<rparr>"

definition log_msg :: "level \<Rightarrow> string \<Rightarrow> log_arg list \<Rightarrow> state \<Rightarrow> state" where
  "log_msg lv fmt xs s = emit (Log lv fmt xs) s"

definition sleep :: "nat \<Rightarrow> state \<Rightarrow> state" where
  "sleep n s = emit (Sleep n) s"

text \<open>The events that happened between two states of one run.\<close>

definition new_events :: "state \<Rightarrow> state \<Rightarrow> event list" where
  "new_events s s' = drop (length (trace s)) (trace s')"

text \<open>Sequencing: an exception of the first computation skips the second.\<close>

definition bind :: "(state \<Rightarrow> (error + 'a) \<times> state) \<Rightarrow> ('a \<Rightarrow> state \<Rightarrow> (error + 'b) \<times> state)
    \<Rightarrow> state \<Rightarrow> (error + 'b) \<times> state" where
  "bind m f s = (case m s of (Inl e, s') \<Rightarrow> (Inl e, s') | (Inr x, s') \<Rightarrow> f x s')"

text \<open>Python's \<open>d[k]\<close> on a dict.\<close>

definition getitem :: "(string \<times> 'v) list \<Rightarrow> string \<Rightarrow> error + 'v" where
  "getitem d k = (case map_of d k of None \<Rightarrow> Inl (KeyError k) | Some v \<Rightarrow> Inr v)"

section \<open>Cloud API Gateway: class OVHClient\<close>

text \<open>
  The methods of \<open>ovh.Client\<close> itself (\<open>super().get\<close> and so on): one HTTP request,
  answered by the environment.
\<close>

definition super_get :: "(event list \<Rightarrow> string \<Rightarrow> api_error + 'a) \<Rightarrow> string \<Rightarrow> state
    \<Rightarrow> (error + 'a) \<times> state" where
  "super_get answer path s =
     (case answer (trace s) path of
        Inl e \<Rightarrow> (Inl (APIError e), emit (HttpGet path (Some e)) s)
      | Inr v \<Rightarrow> (Inr v, emit (HttpGet path None) s))"

definition super_delete :: "(event list \<Rightarrow> string \<Rightarrow> api_error + 'a) \<Rightarrow> string \<Rightarrow> state
    \<Rightarrow> (error + 'a) \<times> state" where
  "super_delete answer path s =
     (case answer (trace s) path of
        Inl e \<Rightarrow> (Inl (APIError e), emit (HttpDelete path (Some e)) s)
      | Inr v \<Rightarrow> (Inr v, emit (HttpDelete path None) s))"

definition super_post :: "(event list \<Rightarrow> string \<Rightarrow> post_body \<Rightarrow> api_error + 'a) \<Rightarrow> string
    \<Rightarrow> post_body \<Rightarrow> state \<Rightarrow> (error + 'a) \<times> state" where
  "super_post answer path body s =
     (case answer (trace s) path body of
        Inl e \<Rightarrow> (Inl (APIError e), emit (HttpPost path body (Some e)) s)
      | Inr v \<Rightarrow> (Inr v, emit (HttpPost path body None) s))"

text \<open>
  The decorator \<open>@retry(stop_max_attempt_number=n)\<close> of the \<open>retrying\<close> package, with
  every other option at its default: the call is repeated, without waiting, after any
  exception, until it returns or attempt number \<open>n\<close> has failed; then the last exception
  is raised again.
\<close>

function retry_call :: "nat \<Rightarrow> nat \<Rightarrow> (state \<Rightarrow> (error + 'a) \<times> state) \<Rightarrow> state
    \<Rightarrow> (error + 'a) \<times> state" where
  "retry_call stop_max_attempt_number attempt_number f s =
     (case f s of
        (Inr v, s') \<Rightarrow> (Inr v, s')
      | (Inl e, s') \<Rightarrow>
          if attempt_number \<ge> stop_max_attempt_number then (Inl e, s')
          else retry_call stop_max_attempt_number (Suc attempt_number) f s')"
  by pat_completeness auto
termination
  by (relation "measure (\<lambda>(m, k, f, s). m - k)") auto

declare retry_call.simps [simp del]

definition retry :: "nat \<Rightarrow> (state \<Rightarrow> (error + 'a) \<times> state) \<Rightarrow> state \<Rightarrow> (error + 'a) \<times> state" where
  "retry stop_max_attempt_number f = retry_call stop_max_attempt_number 1 f"

text \<open>\<open>OVHClient\<close> overrides \<open>get\<close> and \<open>delete\<close> with the decorator; \<open>post\<close> is inherited.\<close>

definition ovh_get :: "(event list \<Rightarrow> string \<Rightarrow> api_error + 'a) \<Rightarrow> string \<Rightarrow> state
    \<Rightarrow> (error + 'a) \<times> state" where
  "ovh_get answer path = retry 3 (super_get answer path)"

definition ovh_delete :: "(event list \<Rightarrow> string \<Rightarrow> api_error + 'a) \<Rightarrow> string \<Rightarrow> state
    \<Rightarrow> (error + 'a) \<times> state" where
  "ovh_delete answer path = retry 3 (super_delete answer path)"

definition ovh_post :: "(event list \<Rightarrow> string \<Rightarrow> post_body \<Rightarrow> api_error + 'a) \<Rightarrow> string
    \<Rightarrow> post_body \<Rightarrow> state \<Rightarrow> (error + 'a) \<times> state" where
  "ovh_post answer path body = super_post answer path body"


section \<open>Resource Catalog: the lazy properties of OVHInstances\<close>

definition ret :: "error + 'a \<Rightarrow> state \<Rightarrow> (error + 'a) \<times> state" where
  "ret r s = (r, s)"

text \<open>A \<open>for\<close> loop whose body may raise.\<close>

fun for_each :: "('a \<Rightarrow> state \<Rightarrow> (error + unit) \<times> state) \<Rightarrow> 'a list \<Rightarrow> state
    \<Rightarrow> (error + unit) \<times> state" where
  "for_each body [] s = (Inr (), s)"
| "for_each body (x # xs) s =
     (case body x s of (Inl e, s') \<Rightarrow> (Inl e, s') | (Inr _, s') \<Rightarrow> for_each body xs s')"

text \<open>\<open>d[r][n] = i\<close>, after \<open>if r not in d: d[r] = {}\<close>.\<close>

definition setitem2 :: "string \<Rightarrow> string \<Rightarrow> string \<Rightarrow> (string \<times> (string \<times> string) list) list
    \<Rightarrow> (string \<times> (string \<times> string) list) list" where
  "setitem2 r n i d =
     (let d1 = (if map_of d r = None then AList.update r [] d else d)
      in AList.update r (AList.update n i (case map_of d1 r of None \<Rightarrow> [] | Some m \<Rightarrow> m)) d1)"

definition add_project :: "env \<Rightarrow> string \<Rightarrow> state \<Rightarrow> (error + unit) \<times> state" where
  "add_project env serviceName =
     bind (ovh_get (api_project env) (''/cloud/project/'' @ serviceName))
       (\<lambda>project s.
          let s1 = log_msg Debug ''Found project {} with id {}''
                     [Str (project_description project), Str (project_project_id project)] s
          in (Inr (), s1\<lparr>priv_projects :=
                AList.update (project_description project) project (priv_projects s1)\<rparr>))"

definition projects :: "env \<Rightarrow> state \<Rightarrow> (error + (string \<times> project_json) list) \<times> state" where
  "projects env s =
     (if length (priv_projects s) = 0 then
        bind (ovh_get (api_project_list env) ''/cloud/project'')
          (\<lambda>names. bind (for_each (add_project env) names)
             (\<lambda>_ s'. (Inr (priv_projects s'), s')))
          (log_msg Debug ''Fetching projects from OVH API'' [] s)
      else (Inr (priv_projects s), s))"

definition add_flavor :: "flavor_json \<Rightarrow> state \<Rightarrow> state" where
  "add_flavor flavor s =
     (if flavor_osType flavor = ''linux'' then
        (log_msg Debug ''Found type {} in region {} with id {}''
           [Str (flavor_name flavor), Str (flavor_region flavor), Str (flavor_id flavor)] s)
        \<lparr>priv_flavors :=
           setitem2 (flavor_region flavor) (flavor_name flavor) (flavor_id flavor) (priv_flavors s)\<rparr>
      else s)"

definition flavors :: "env \<Rightarrow> state \<Rightarrow> (error + (string \<times> (string \<times> string) list) list) \<times> state" where
  "flavors env s =
     (if length (priv_flavors s) = 0 then
        bind (ovh_get (api_flavors env) (''/cloud/project/'' @ project_id s @ ''/flavor''))
          (\<lambda>listing s1. let s2 = fold add_flavor listing s1 in (Inr (priv_flavors s2), s2))
          (log_msg Debug ''Fetching machine types from OVH API'' [] s)
      else (Inr (priv_flavors s), s))"

definition add_image :: "image_json \<Rightarrow> state \<Rightarrow> state" where
  "add_image img s =
     (log_msg Debug ''Found image {} in region {} with id {}''
        [Str (image_name img), Str (image_region img), Str (image_id img)] s)
     \<lparr>priv_images :=
        setitem2 (image_region img) (image_name img) (image_id img) (priv_images s)\<rparr>"

definition images :: "env \<Rightarrow> state \<Rightarrow> (error + (string \<times> (string \<times> string) list) list) \<times> state" where
  "images env s =
     (if length (priv_images s) = 0 then
        bind (ovh_get (api_images env) (''/cloud/project/'' @ project_id s @ ''/image''))
          (\<lambda>listing s1. let s2 = fold add_image listing s1 in (Inr (priv_images s2), s2))
          (log_msg Debug ''Fetching OS Images from OVH API'' [] s)
      else (Inr (priv_images s), s))"

definition add_ssh_key_region :: "ssh_key_json \<Rightarrow> string \<Rightarrow> state \<Rightarrow> state" where
  "add_ssh_key_region ssh_key region s =
     (log_msg Debug ''Found ssh key {} in region {} with id {}''
        [Str (ssh_key_name ssh_key), Str region, Str (ssh_key_id ssh_key)] s)
     \<lparr>priv_ssh_keys :=
        setitem2 region (ssh_key_name ssh_key) (ssh_key_id ssh_key) (priv_ssh_keys s)\<rparr>"

definition add_ssh_key :: "ssh_key_json \<Rightarrow> state \<Rightarrow> state" where
  "add_ssh_key ssh_key s = fold (add_ssh_key_region ssh_key) (ssh_key_regions ssh_key) s"

definition ssh_keys :: "env \<Rightarrow> state \<Rightarrow> (error + (string \<times> (string \<times> string) list) list) \<times> state" where
  "ssh_keys env s =
     (if length (priv_ssh_keys s) = 0 then
        bind (ovh_get (api_ssh_keys env) (''/cloud/project/'' @ project_id s @ ''/sshkey''))
          (\<lambda>listing s1. let s2 = fold add_ssh_key listing s1 in (Inr (priv_ssh_keys s2), s2))
          (log_msg Debug ''Fetching ssh keys from OVH API'' [] s)
      else (Inr (priv_ssh_keys s), s))"

text \<open>A catalog lookup as \<open>create_instance\<close> writes it: \<open>self.flavors[region][flavor]\<close>.\<close>

definition lookup2 :: "(state \<Rightarrow> (error + (string \<times> (string \<times> string) list) list) \<times> state)
    \<Rightarrow> string \<Rightarrow> string \<Rightarrow> state \<Rightarrow> (error + string) \<times> state" where
  "lookup2 category r n =
     bind category (\<lambda>d. bind (ret (getitem d r)) (\<lambda>dr. ret (getitem dr n)))"

section \<open>Instance Provisioner\<close>

definition cleanup_instance :: "env \<Rightarrow> string \<Rightarrow> state \<Rightarrow> (error + unit) \<times> state" where
  "cleanup_instance env instance_id s =
     ovh_delete (api_delete env) (''/cloud/project/'' @ project_id s @ ''/instance/'' @ instance_id)
       (log_msg Debug ''Removing instance {}'' [Str instance_id] s)"

definition cleanup :: "env \<Rightarrow> state \<Rightarrow> (error + unit) \<times> state" where
  "cleanup env s =
     (let s1 = log_msg Info ''Cleaning up instances'' [] s
      in for_each (\<lambda>i. cleanup_instance env (inst_id i)) (instances s1) s1)"

definition create_instance :: "env \<Rightarrow> string \<Rightarrow> string \<Rightarrow> string \<Rightarrow> string \<Rightarrow> string \<Rightarrow> int \<Rightarrow> state
    \<Rightarrow> (error + instance_entry list) \<times> state" where
  "create_instance env nm region flavor img ssh_key num =
     bind (lookup2 (flavors env) region flavor) (\<lambda>flavor_id.
     bind (lookup2 (images env) region img) (\<lambda>image_id.
     bind (lookup2 (ssh_keys env) region ssh_key) (\<lambda>ssh_key_id s.
       bind (ovh_post (api_bulk env) (''/cloud/project/'' @ project_id s @ ''/instance/bulk'')
               \<lparr>post_serviceName = project_id s, post_flavorId = flavor_id,
                post_imageId = image_id, post_name = nm, post_region = region,
                post_sshKeyId = ssh_key_id, post_monthlyBilling = False, post_number = num\<rparr>)
         (\<lambda>r. ret (Inr (map (\<lambda>i. \<lparr>inst_id = i, inst_ip = None\<rparr>) r)))
         (log_msg Debug ''Creating {} instance{} in region {} of type {} with image {}''
            [Num num, Str (if num = 1 then [] else ''s''), Str region, Str flavor, Str img] s))))"

text \<open>\<open>next(i for (i, d) in enumerate(xs) if d["id"] == instance_id)\<close>; \<open>None\<close> is StopIteration.\<close>

fun first_index :: "string \<Rightarrow> instance_entry list \<Rightarrow> nat option" where
  "first_index instance_id [] = None"
| "first_index instance_id (d # ds) =
     (if inst_id d = instance_id then Some 0
      else map_option Suc (first_index instance_id ds))"

text \<open>\<open>del xs[i]\<close> for an index in range.\<close>

definition del_at :: "nat \<Rightarrow> 'a list \<Rightarrow> 'a list" where
  "del_at i xs = take i xs @ drop (Suc i) xs"

definition recover_instance_error :: "env \<Rightarrow> string \<Rightarrow> string \<Rightarrow> string \<Rightarrow> string \<Rightarrow> string \<Rightarrow> string
    \<Rightarrow> state \<Rightarrow> (error + unit) \<times> state" where
  "recover_instance_error env instance_id nm region flavor img ssh_key s =
     (let s0 = log_msg Info ''Encountered OVH Cloud ERROR - trying to replace failed instance'' [] s
      in case first_index instance_id (instances s0) of
           None \<Rightarrow> (Inl StopIteration, s0)
         | Some i \<Rightarrow>
             bind (cleanup_instance env instance_id) (\<lambda>_.
             bind (create_instance env nm region flavor img ssh_key 1) (\<lambda>new s'.
               (Inr (), s'\<lparr>instances := instances s' @ new\<rparr>)))
               (s0\<lparr>instances := del_at i (instances s0)\<rparr>))"

text \<open>
  One turn of the \<open>for\<close> loop of \<open>create_instances\<close>, for the entry at index \<open>i\<close> of the
  working set: the entry is skipped when it has an \<open>'ip'\<close> (the generator's filter); the
  result says whether the loop goes on to the next entry or breaks, with the value of
  \<open>wait\<close>.
\<close>

datatype ctl = Next bool | Break bool

definition poll_one :: "env \<Rightarrow> args \<Rightarrow> nat \<Rightarrow> bool \<Rightarrow> state \<Rightarrow> (error + ctl) \<times> state" where
  "poll_one env a i wait s =
     (let inst = instances s ! i
      in case inst_ip inst of
           Some _ \<Rightarrow> (Inr (Next wait), s)
         | None \<Rightarrow>
             bind (ovh_get (api_instance env)
                     (''/cloud/project/'' @ project_id s @ ''/instance/'' @ inst_id inst))
               (\<lambda>r s1.
                  if status r = ''BUILD'' then
                    (Inr (Next True),
                     log_msg Debug ''Instance {} is still being build'' [Str (inst_id inst)] s1)
                  else if status r = ''ACTIVE'' then
                    (case ipAddresses r of
                       [] \<Rightarrow> (Inl IndexError, s1)
                     | ip # _ \<Rightarrow>
                         let rc = os_connect_ex env (trace s1) ip 22;
                             s2 = emit (Connect ip 22 rc) s1
                         in if rc = 0 then
                              (Inr (Next wait),
                               log_msg Info ''Instance {} is active with IP {} and ssh is available''
                                 [Str (inst_id inst), Str ip]
                                 (s2\<lparr>instances := (instances s2)[i := inst\<lparr>inst_ip := Some ip\<rparr>]\<rparr>))
                            else
                              (Inr (Next True),
                               log_msg Debug
                                 ''Instance {} is active with IP {} but ssh is not yet available''
                                 [Str (inst_id inst), Str ip] s2))
                  else if status r = ''ERROR'' then
                    bind (recover_instance_error env (inst_id inst) (arg_name a) (arg_region a)
                            (arg_flavor a) (arg_image a) (arg_ssh_key a))
                      (\<lambda>_. ret (Inr (Break True)))
                      (log_msg Error
                         (''Instance {} entered an ERROR state - dumping response object'' @ [CHR 0x0A] @ ''{}'')
                         [Str (inst_id inst), Obj r] s1)
                  else
                    (Inr (Next wait),
                     log_msg Error ''Instance {} has an unexpected status {}''
                       [Str (inst_id inst), Str (status r)] s1))
               s)"

text \<open>
  The gateway, whatever it is asked, changes nothing of the state but the trace, which
  it extends. The \<open>for\<close> loop below terminates because of it: the working set keeps
  its length while the loop moves on.
\<close>

lemma super_get_frame: "\<exists>evs. snd (super_get answer path s) = s\<lparr>trace := trace s @ evs\<rparr>"
  by (auto simp: super_get_def emit_def split: sum.splits)

lemma super_delete_frame: "\<exists>evs. snd (super_delete answer path s) = s\<lparr>trace := trace s @ evs\<rparr>"
  by (auto simp: super_delete_def emit_def split: sum.splits)

lemma super_post_frame: "\<exists>evs. snd (super_post answer path body s) = s\<lparr>trace := trace s @ evs\<rparr>"
  by (auto simp: super_post_def emit_def split: sum.splits)

lemma retry_call_frame:
  assumes "\<And>s. \<exists>evs. snd (f s) = s\<lparr>trace := trace s @ evs\<rparr>"
  shows "\<exists>evs. snd (retry_call m k f s) = s\<lparr>trace := trace s @ evs\<rparr>"
  using assms
proof (induction m k f s rule: retry_call.induct)
  case (1 m k f s)
  note frame = "1.prems"
  obtain r s' where fs: "f s = (r, s')" by (cases "f s")
  from frame[of s] obtain evs where "snd (f s) = s\<lparr>trace := trace s @ evs\<rparr>" by blast
  with fs have s': "s' = s\<lparr>trace := trace s @ evs\<rparr>" by simp
  show ?case
  proof (cases r)
    case (Inr v)
    with fs s' show ?thesis by (subst retry_call.simps) auto
  next
    case (Inl e)
    show ?thesis
    proof (cases "m \<le> k")
      case True
      with fs s' Inl show ?thesis by (subst retry_call.simps) auto
    next
      case False
      from "1.IH"[OF fs[symmetric] Inl] False frame
      obtain evs' where "snd (retry_call m (Suc k) f s') = s'\<lparr>trace := trace s' @ evs'\<rparr>"
        by auto
      with fs s' Inl False show ?thesis by (subst retry_call.simps) (auto simp: s')
    qed
  qed
qed

lemma ovh_get_frame: "\<exists>evs. snd (ovh_get answer path s) = s\<lparr>trace := trace s @ evs\<rparr>"
  unfolding ovh_get_def retry_def by (rule retry_call_frame) (rule super_get_frame)

lemma ovh_delete_frame: "\<exists>evs. snd (ovh_delete answer path s) = s\<lparr>trace := trace s @ evs\<rparr>"
  unfolding ovh_delete_def retry_def by (rule retry_call_frame) (rule super_delete_frame)

lemma ovh_post_frame: "\<exists>evs. snd (ovh_post answer path body s) = s\<lparr>trace := trace s @ evs\<rparr>"
  unfolding ovh_post_def by (rule super_post_frame)

lemma ovh_get_instances: "ovh_get answer path s = (r, s') \<Longrightarrow> instances s' = instances s"
  using ovh_get_frame[of answer path s] by auto

lemma poll_one_Next:
  assumes "poll_one env a i wait s = (Inr (Next w), s')"
  shows "length (instances s') = length (instances s)"
proof (cases "inst_ip (instances s ! i)")
  case (Some ip)
  with assms show ?thesis by (simp add: poll_one_def)
next
  case None
  obtain r s1 where g: "ovh_get (api_instance env)
      (''/cloud/project/'' @ project_id s @ ''/instance/'' @ inst_id (instances s ! i)) s = (r, s1)"
    by (cases "ovh_get (api_instance env)
      (''/cloud/project/'' @ project_id s @ ''/instance/'' @ inst_id (instances s ! i)) s")
  from ovh_get_instances[OF g] have i1: "instances s1 = instances s" .
  from assms None g i1 show ?thesis
    by (auto simp: poll_one_def bind_def ret_def log_msg_def emit_def Let_def
        split: sum.splits if_splits list.splits prod.splits)
qed

text \<open>
  The \<open>for\<close> loop over the working set, from index \<open>i\<close> on: Python's list iterator
  compares its index with the current length at every step.
\<close>

function poll_pass :: "env \<Rightarrow> args \<Rightarrow> nat \<Rightarrow> bool \<Rightarrow> state \<Rightarrow> (error + bool) \<times> state" where
  "poll_pass env a i wait s =
     (if i < length (instances s) then
        (case poll_one env a i wait s of
           (Inl e, s') \<Rightarrow> (Inl e, s')
         | (Inr (Break w), s') \<Rightarrow> (Inr w, s')
         | (Inr (Next w), s') \<Rightarrow> poll_pass env a (Suc i) w s')
      else (Inr wait, s))"
  by pat_completeness auto
termination
  by (relation "measure (\<lambda>(env, a, i, wait, s). length (instances s) - i)")
     (auto dest: poll_one_Next[OF sym])

declare poll_pass.simps [simp del]

text \<open>
  The \<open>while wait\<close> loop. It has no bound of its own, so the model counts passes: with
  \<open>n\<close> passes allowed, the result is \<open>None\<close> when the loop is still waiting after \<open>n\<close>
  passes, and the state is the one reached then.
\<close>

fun poll_loop :: "nat \<Rightarrow> env \<Rightarrow> args \<Rightarrow> state \<Rightarrow> (error + unit) option \<times> state" where
  "poll_loop 0 env a s = (None, s)"
| "poll_loop (Suc n) env a s =
     (case poll_pass env a 0 False (sleep 5 s) of
        (Inl e, s') \<Rightarrow> (Some (Inl e), s')
      | (Inr wait, s') \<Rightarrow> if wait then poll_loop n env a s' else (Some (Inr ()), s'))"

definition create_instances :: "nat \<Rightarrow> env \<Rightarrow> args \<Rightarrow> state \<Rightarrow> (error + unit) option \<times> state" where
  "create_instances passes env a s =
     (case create_instance env (arg_name a) (arg_region a) (arg_flavor a) (arg_image a)
             (arg_ssh_key a) (arg_masters a + arg_agents a)
             (log_msg Info ''Sending instance creation requests'' [] s) of
        (Inl e, s1) \<Rightarrow> (Some (Inl e), s1)
      | (Inr new, s1) \<Rightarrow>
          let s2 = s1\<lparr>instances := instances s1 @ new\<rparr>
          in poll_loop passes env a
               (log_msg Info ''Sent request to OVH Cloud API to create {} instances''
                  [Num (int (length (instances s2)))] s2))"

section \<open>Remote Command Runner and Deployment Pipeline: class DCOSInstall\<close>

text \<open>The command runs in a shell; the environment gives its return code.\<close>

definition stream_cmd :: "env \<Rightarrow> string \<Rightarrow> state \<Rightarrow> (error + bool) \<times> state" where
  "stream_cmd env cmd s =
     (let returncode = os_returncode env (trace s) cmd;
          s1 = emit (Cmd cmd returncode) s
      in if returncode \<noteq> 0 then
           (Inl (ValueError cmd returncode),
            log_msg Error ''Command {} returned code {}'' [Str cmd, Num returncode] s1)
         else (Inr True, s1))"

definition remote_cmd :: string where
  "remote_cmd = ''sudo systemctl disable firewalld; sudo systemctl stop firewalld''"

definition ssh_cmd :: "string \<Rightarrow> string \<Rightarrow> string" where
  "ssh_cmd user host =
     ''ssh -tt -o StrictHostKeyChecking=no -o ConnectTimeout=10 -o UserKnownHostsFile=/dev/null''
     @ '' -o BatchMode=yes -i genconf/ssh_key '' @ user @ ''@'' @ host @ '' ''
     @ [CHR 0x27] @ remote_cmd @ [CHR 0x27] @ '' <&-''"

text \<open>The \<open>while retries > 0 and not success\<close> loop of \<open>system_prep\<close>, for one host.\<close>

function prep_retry :: "env \<Rightarrow> string \<Rightarrow> string \<Rightarrow> int \<Rightarrow> bool \<Rightarrow> state \<Rightarrow> (error + unit) \<times> state" where
  "prep_retry env host cmd retries success s =
     (if retries > 0 \<and> \<not> success then
        (case stream_cmd env cmd s of
           (Inr _, s') \<Rightarrow> prep_retry env host cmd retries True s'
         | (Inl (ValueError c rc), s') \<Rightarrow>
             prep_retry env host cmd (retries - 1) success
               (sleep 10 (log_msg Debug ''Failed to prepare {} - {} retries left''
                  [Str host, Num (retries - 1)] s'))
         | (Inl e, s') \<Rightarrow> (Inl e, s'))
      else (Inr (), s))"
  by pat_completeness auto
termination
  by (relation "measure (\<lambda>(env, host, cmd, retries, success, s).
        if success then 0 else Suc (nat retries))") auto

declare prep_retry.simps [simp del]

definition prep_host :: "env \<Rightarrow> args \<Rightarrow> instance_entry \<Rightarrow> state \<Rightarrow> (error + unit) \<times> state" where
  "prep_host env a i s =
     (case inst_ip i of
        None \<Rightarrow> (Inl (KeyError ''ip''), s)
      | Some host \<Rightarrow>
          prep_retry env host (ssh_cmd (arg_ssh_user a) host) 3 False
            (log_msg Debug ''Preparing {}'' [Str host] s))"

definition system_prep :: "env \<Rightarrow> args \<Rightarrow> state \<Rightarrow> (error + unit) \<times> state" where
  "system_prep env a s =
     (let s0 = log_msg Info ''Preparing OVH systems for DC/OS installation'' [] s
      in for_each (prep_host env a) (instances s0) s0)"

definition installer :: string where
  "installer = ''dcos_generate_config.sh''"

definition phases :: "string list" where
  "phases = [''--genconf'', ''--install-prereqs'', ''--preflight'', ''--deploy'', ''--postflight'']"

definition phase_cmd :: "string \<Rightarrow> string" where
  "phase_cmd flag = ''./'' @ installer @ '' '' @ flag"

definition run_phase :: "env \<Rightarrow> string \<Rightarrow> state \<Rightarrow> (error + unit) \<times> state" where
  "run_phase env flag = bind (stream_cmd env (phase_cmd flag)) (\<lambda>_. ret (Inr ()))"

definition report :: "args \<Rightarrow> state \<Rightarrow> (error + unit) \<times> state" where
  "report a s =
     (let s1 = log_msg Info ''DC/OS is available at the following master endpoints:'' [] s
      in case config s1 of
           None \<Rightarrow> (Inl (KeyError ''master_list''), s1)
         | Some cfg \<Rightarrow>
             let s2 = fold (\<lambda>master. log_msg Info ([CHR 0x09] @ ''https://{master}/'' @ [CHR 0x09] @ ''ssh://{user}@'' @ ''{master}'')
                                [Str master, Str (arg_ssh_user a)]) (master_list cfg) s1;
                 s3 = log_msg Info ''The following agents have been installed:'' [] s2;
                 s4 = fold (\<lambda>agent. log_msg Info ([CHR 0x09] @ ''ssh://{}@'' @ ''{}'')
                                [Str (arg_ssh_user a), Str agent]) (agent_list cfg) s3
             in (Inr (),
                 log_msg Warn
                   ''WARNING - All host firewalls are OPEN! Service ports are publicly available!''
                   [] s4))"

text \<open>
  The five \<open>stream_cmd\<close> statements of \<open>install\<close> are the loop over \<open>phases\<close>; the
  \<open>except ValueError\<close> clause ends the process with \<open>sys.exit(1)\<close>.
\<close>

definition install :: "env \<Rightarrow> args \<Rightarrow> state \<Rightarrow> (error + unit) \<times> state" where
  "install env a s =
     (case for_each (run_phase env) phases (log_msg Info ''Running the DC/OS installer'' [] s) of
        (Inl (ValueError c rc), s1) \<Rightarrow>
          (Inl (SystemExit 1),
           log_msg Critical ''An error occurred while installing DC/OS - aborting'' [] s1)
      | (Inl e, s1) \<Rightarrow> (Inl e, s1)
      | (Inr _, s1) \<Rightarrow> report a s1)"

text \<open>Python's slices \<open>xs[:m]\<close> and \<open>xs[k:]\<close>; a negative bound counts from the end.\<close>

definition slice_to :: "'a list \<Rightarrow> int \<Rightarrow> 'a list" where
  "slice_to xs m = (if m < 0 then take (length xs - nat (- m)) xs else take (nat m) xs)"

definition slice_from :: "'a list \<Rightarrow> int \<Rightarrow> 'a list" where
  "slice_from xs k = (if k < 0 then drop (length xs - nat (- k)) xs else drop (nat k) xs)"

text \<open>\<open>[i['ip'] for i in instances]\<close>: a KeyError when an entry has no \<open>'ip'\<close>.\<close>

definition ips_of :: "instance_entry list \<Rightarrow> error + string list" where
  "ips_of xs = (case those (map inst_ip xs) of None \<Rightarrow> Inl (KeyError ''ip'') | Some ips \<Rightarrow> Inr ips)"

definition write_config :: "args \<Rightarrow> state \<Rightarrow> (error + unit) \<times> state" where
  "write_config a s =
     (case ips_of (instances s) of
        Inl e \<Rightarrow> (Inl e, s)
      | Inr ips \<Rightarrow>
          let cfg = \<lparr>master_list = slice_to ips (arg_masters a),
                     agent_list = slice_from ips (- arg_agents a),
                     ssh_user = arg_ssh_user a\<rparr>
          in (Inr (), emit (WriteFile ''genconf/config.yaml'' cfg) (s\<lparr>config := Some cfg\<rparr>)))"

text \<open>
  \<open>download\<close> fetches the installer and checks that the files under \<open>genconf/\<close> exist.
  Only its outcome matters to what follows: it returns, or it raises (\<open>sys.exit(1)\<close> when
  a file is missing); the environment says which.
\<close>

definition download :: "env \<Rightarrow> args \<Rightarrow> state \<Rightarrow> (error + unit) \<times> state" where
  "download env a s =
     (let s1 = log_msg Info ''Downloading DC/OS Installer from {}'' [Str (arg_url a)] s
      in case os_download env (trace s1) of
           None \<Rightarrow> (Inr (), emit (Download None) s1)
         | Some e \<Rightarrow> (Inl e, emit (Download (Some e)) s1))"

definition deploy :: "nat \<Rightarrow> env \<Rightarrow> args \<Rightarrow> state \<Rightarrow> (error + unit) option \<times> state" where
  "deploy passes env a s =
     (case download env a s of
        (Inl e, s1) \<Rightarrow> (Some (Inl e), s1)
      | (Inr _, s1) \<Rightarrow>
          (case create_instances passes env a s1 of
             (None, s2) \<Rightarrow> (None, s2)
           | (Some (Inl e), s2) \<Rightarrow> (Some (Inl e), s2)
           | (Some (Inr _), s2) \<Rightarrow>
               (case bind (write_config a) (\<lambda>_. bind (system_prep env a) (\<lambda>_. install env a)) s2 of
                  (r, s3) \<Rightarrow> (Some r, s3))))"

section \<open>The process: main and the handlers run at exit\<close>

text \<open>\<open>OVHInstances.__init__\<close>: registers \<open>cleanup\<close> with \<open>atexit\<close>, then looks the project up.\<close>

definition init_OVHInstances :: "env \<Rightarrow> args \<Rightarrow> state \<Rightarrow> (error + unit) \<times> state" where
  "init_OVHInstances env a s =
     bind (projects env) (\<lambda>ps.
     bind (ret (getitem ps (arg_project a))) (\<lambda>project s'.
       (Inr (), s'\<lparr>project_id := project_project_id project\<rparr>)))
       (s\<lparr>atexit_handlers := atexit_handlers s @ [Cleanup], instances := [],
          priv_projects := [], priv_flavors := [], priv_images := [], priv_ssh_keys := []\<rparr>)"

text \<open>
  \<open>main\<close> ends with \<open>sys.exit(0)\<close> after the operator's Enter, or earlier with the
  exception that stopped it; \<open>None\<close> means that it is still polling.
\<close>

definition main :: "nat \<Rightarrow> env \<Rightarrow> args \<Rightarrow> state \<Rightarrow> error option \<times> state" where
  "main passes env a s =
     (case init_OVHInstances env a s of
        (Inl e, s1) \<Rightarrow> (Some e, s1)
      | (Inr _, s1) \<Rightarrow>
          (case deploy passes env a s1 of
             (None, s2) \<Rightarrow> (None, s2)
           | (Some (Inl e), s2) \<Rightarrow> (Some e, s2)
           | (Some (Inr _), s2) \<Rightarrow>
               (Some (SystemExit 0), emit (Input ''Press Enter to DESTROY all instances...'') s2)))"

text \<open>At exit the registered handlers run, last registered first; what a handler raises is
  printed and dropped.\<close>

fun run_handlers :: "env \<Rightarrow> handler list \<Rightarrow> state \<Rightarrow> state" where
  "run_handlers env [] s = s"
| "run_handlers env (Cleanup # hs) s = run_handlers env hs (snd (cleanup env s))"

definition fresh :: state where
  "fresh = \<lparr>instances = [], priv_projects = [], priv_flavors = [], priv_images = [],
            priv_ssh_keys = [], project_id = [], config = None, atexit_handlers = [],
            trace = []\<rparr>"

definition process :: "nat \<Rightarrow> env \<Rightarrow> args \<Rightarrow> error option \<times> state" where
  "process passes env a =
     (case main passes env a fresh of
        (None, s) \<Rightarrow> (None, s)
      | (Some e, s) \<Rightarrow> (Some e, run_handlers env (rev (atexit_handlers s)) s))"

section \<open>Concrete runs\<close>

text \<open>The command line with the defaults of \<open>main\<close>, for given numbers of masters and agents.\<close>

definition default_args :: "int \<Rightarrow> int \<Rightarrow> args" where
  "default_args m n =
     \<lparr>arg_url = ''https://downloads.dcos.io/dcos/EarlyAccess/dcos_generate_config.sh'',
      arg_project = ''demo'', arg_flavor = ''hg-15'', arg_image = ''Centos 7'',
      arg_ssh_key = ''key'', arg_ssh_user = ''centos'', arg_region = ''SBG1'',
      arg_name = ''Test'', arg_masters = m, arg_agents = n\<rparr>"

text \<open>A provider every call to which fails with the same error.\<close>

definition env_failing :: "api_error \<Rightarrow> env" where
  "env_failing e =
     \<lparr>api_project_list = (\<lambda>h p. Inl e), api_project = (\<lambda>h p. Inl e),
      api_flavors = (\<lambda>h p. Inl e), api_images = (\<lambda>h p. Inl e),
      api_ssh_keys = (\<lambda>h p. Inl e), api_instance = (\<lambda>h p. Inl e),
      api_bulk = (\<lambda>h p b. Inl e), api_delete = (\<lambda>h p. Inl e),
      os_connect_ex = (\<lambda>h ip port. 111), os_returncode = (\<lambda>h c. 1),
      os_download = (\<lambda>h. None)\<rparr>"

text \<open>An answer that fails with a network error until two events have happened.\<close>

definition third_time :: "event list \<Rightarrow> string \<Rightarrow> api_error + unit" where
  "third_time h p = (if length h < 2 then Inl NetworkError else Inr ())"

definition body0 :: post_body where
  "body0 = \<lparr>post_serviceName = ''pid'', post_flavorId = ''f'', post_imageId = ''i'',
            post_name = ''Test'', post_region = ''SBG1'', post_sshKeyId = ''k'',
            post_monthlyBilling = False, post_number = 1\<rparr>"

text \<open>The events of a retried call: the failed attempts, then the successful one if any.\<close>

definition attempts :: "(api_error option \<Rightarrow> event) \<Rightarrow> api_error list \<Rightarrow> error + 'a \<Rightarrow> event list" where
  "attempts ev errs r =
     map (\<lambda>e. ev (Some e)) errs @ (case r of Inl _ \<Rightarrow> [] | Inr _ \<Rightarrow> [ev None])"

text \<open>A working-set entry whose host answers on port 22.\<close>

definition ready :: "string \<Rightarrow> string \<Rightarrow> instance_entry" where
  "ready i ip = \<lparr>inst_id = i, inst_ip = Some ip\<rparr>"

text \<open>The commands of a trace, in order, with their return codes.\<close>

fun commands :: "event list \<Rightarrow> (string \<times> int) list" where
  "commands [] = []"
| "commands (Cmd c rc # evs) = (c, rc) # commands evs"
| "commands (ev # evs) = commands evs"

text \<open>A shell in which the first three commands fail.\<close>

definition env_unreachable :: env where
  "env_unreachable = (env_failing NetworkError)
     \<lparr>os_returncode := (\<lambda>h c. if length (commands h) < 3 then 255 else 0)\<rparr>"

definition two_ready :: state where
  "two_ready = fresh\<lparr>instances := [ready ''a'' ''10.0.0.1'', ready ''b'' ''10.0.0.2'']\<rparr>"

text \<open>
  The events of \<open>system_prep\<close> for one host: the failed attempts with their return
  codes, each followed by its two log lines and the sleep, then the successful attempt
  if there is one. An outcome is the list of return codes of the failed attempts and
  whether an attempt succeeded; within \<open>n\<close> attempts, it is \<open>bounded n\<close>.
\<close>

fun attempt_events :: "string \<Rightarrow> string \<Rightarrow> int \<Rightarrow> int list \<Rightarrow> bool \<Rightarrow> event list" where
  "attempt_events host cmd retries [] ok = (if ok then [Cmd cmd 0] else [])"
| "attempt_events host cmd retries (rc # rcs) ok =
     [Cmd cmd rc,
      Log Error ''Command {} returned code {}'' [Str cmd, Num rc],
      Log Debug ''Failed to prepare {} - {} retries left'' [Str host, Num (retries - 1)],
      Sleep 10]
     @ attempt_events host cmd (retries - 1) rcs ok"

definition host_events :: "string \<Rightarrow> string \<Rightarrow> int list \<times> bool \<Rightarrow> event list" where
  "host_events user host outcome =
     Log Debug ''Preparing {}'' [Str host]
     # attempt_events host (ssh_cmd user host) 3 (fst outcome) (snd outcome)"

definition bounded :: "nat \<Rightarrow> int list \<times> bool \<Rightarrow> bool" where
  "bounded n outcome =
     (0 \<notin> set (fst outcome)
      \<and> (if snd outcome then length (fst outcome) < n else length (fst outcome) = n))"

text \<open>The number of creation requests in a trace.\<close>

fun posts :: "event list \<Rightarrow> nat" where
  "posts [] = 0"
| "posts (HttpPost p b r # evs) = Suc (posts evs)"
| "posts (ev # evs) = posts evs"

text \<open>\<open>n\<close> new identifiers with a common prefix.\<close>

fun fresh_ids :: "string \<Rightarrow> nat \<Rightarrow> string list" where
  "fresh_ids p 0 = []"
| "fresh_ids p (Suc n) = fresh_ids p n @ [p @ replicate (Suc n) (CHR ''i'')]"

text \<open>
  A provider with one project, one flavor, one image and one key, that creates as many
  instances as it is asked for under identifiers not used before, and hosts that accept
  every connection. How it answers a status query and a deletion, and what the commands
  return, are left open.
\<close>

definition cloud :: "(event list \<Rightarrow> string \<Rightarrow> api_error + instance_json)
    \<Rightarrow> (event list \<Rightarrow> string \<Rightarrow> api_error + unit) \<Rightarrow> (event list \<Rightarrow> string \<Rightarrow> int) \<Rightarrow> env" where
  "cloud answer_status answer_delete returncode =
     \<lparr>api_project_list = (\<lambda>h p. Inr [''svc'']),
      api_project = (\<lambda>h p. Inr \<lparr>project_description = ''demo'', project_project_id = ''pid''\<rparr>),
      api_flavors = (\<lambda>h p. Inr [\<lparr>flavor_osType = ''linux'', flavor_region = ''SBG1'',
                                 flavor_name = ''hg-15'', flavor_id = ''f1''\<rparr>]),
      api_images = (\<lambda>h p. Inr [\<lparr>image_region = ''SBG1'', image_name = ''Centos 7'',
                                image_id = ''i1''\<rparr>]),
      api_ssh_keys = (\<lambda>h p. Inr [\<lparr>ssh_key_regions = [''SBG1''], ssh_key_name = ''key'',
                                  ssh_key_id = ''k1''\<rparr>]),
      api_instance = answer_status,
      api_bulk = (\<lambda>h p b. Inr (fresh_ids (''vm'' @ replicate (posts h) (CHR ''r''))
                                (nat (post_number b)))),
      api_delete = answer_delete,
      os_connect_ex = (\<lambda>h ip port. 0),
      os_returncode = returncode,
      os_download = (\<lambda>h. None)\<rparr>"

text \<open>The instance named at the end of a status path.\<close>

definition id_of :: "string \<Rightarrow> string" where
  "id_of path = drop 28 path"

definition active :: "event list \<Rightarrow> string \<Rightarrow> api_error + instance_json" where
  "active h path = Inr \<lparr>status = ''ACTIVE'', ipAddresses = [''ip-of-'' @ id_of path]\<rparr>"

definition deleted :: "event list \<Rightarrow> string \<Rightarrow> api_error + unit" where
  "deleted h path = Inr ()"

definition preflight_fails :: "event list \<Rightarrow> string \<Rightarrow> int" where
  "preflight_fails h c = (if c = phase_cmd ''--preflight'' then 1 else 0)"

text \<open>
  A sequence of catalog lookups \<open>self.flavors[r][n]\<close> (or images, or ssh keys), by a caller
  that goes on after a lookup that raised.
\<close>

definition lookups :: "(state \<Rightarrow> (error + (string \<times> (string \<times> string) list) list) \<times> state)
    \<Rightarrow> (string \<times> string) list \<Rightarrow> state \<Rightarrow> state" where
  "lookups category keys s = fold (\<lambda>(r, n) s'. snd (lookup2 category r n s')) keys s"

text \<open>The line that each catalog property logs before it asks the gateway for its listing.\<close>

definition fetching_flavors :: event where
  "fetching_flavors = Log Debug ''Fetching machine types from OVH API'' []"

definition fetching_images :: event where
  "fetching_images = Log Debug ''Fetching OS Images from OVH API'' []"

definition fetching_ssh_keys :: event where
  "fetching_ssh_keys = Log Debug ''Fetching ssh keys from OVH API'' []"

text \<open>The provider \<open>cloud\<close> with an empty listing of flavors.\<close>

definition no_flavors :: env where
  "no_flavors = (cloud active deleted preflight_fails)\<lparr>api_flavors := (\<lambda>h p. Inr [])\<rparr>"

text \<open>The state after \<open>__init__\<close> has found the project of the provider \<open>cloud\<close>.\<close>

definition started :: state where
  "started = fresh\<lparr>project_id := ''pid''\<rparr>"

text \<open>Answers to a status query: the first instance is in ERROR; every instance is shut off.\<close>

definition first_errored :: "event list \<Rightarrow> string \<Rightarrow> api_error + instance_json" where
  "first_errored h path =
     (if id_of path = ''vmi'' then Inr \<lparr>status = ''ERROR'', ipAddresses = []\<rparr>
      else active h path)"

definition shut_off :: "event list \<Rightarrow> string \<Rightarrow> api_error + instance_json" where
  "shut_off h path = Inr \<lparr>status = ''SHUTOFF'', ipAddresses = []\<rparr>"

text \<open>A provider that no deletion request reaches.\<close>

definition undeletable :: "event list \<Rightarrow> string \<Rightarrow> api_error + unit" where
  "undeletable h path = Inl NetworkError"

definition all_ok :: "event list \<Rightarrow> string \<Rightarrow> int" where
  "all_ok h c = 0"

text \<open>The state after the bulk request for one master and one agent, before the first poll.\<close>

definition requested :: "env \<Rightarrow> state" where
  "requested env = snd (create_instances 0 env (default_args 1 1) started)"

section \<open>Vocabulary of the properties\<close>

text \<open>
  The line that \<open>cleanup\<close> logs when it starts: a trace holds it once for every run of
  \<open>cleanup\<close>.
\<close>

definition cleanup_log :: event where
  "cleanup_log = Log Info ''Cleaning up instances'' []"

text \<open>
  Two relations between a state and a later one. \<open>extends\<close>: the handlers registered
  with \<open>atexit\<close> are the same and the trace has grown by events that are not the line of
  \<open>cleanup\<close>. \<open>aside\<close>: moreover the working set and the project id are the same.
  \<open>steps R f\<close> says that \<open>f\<close> takes every state to one related to it by \<open>R\<close>.
\<close>

definition extends :: "state \<Rightarrow> state \<Rightarrow> bool" where
  "extends s s' =
     (atexit_handlers s' = atexit_handlers s
      \<and> (\<exists>evs. trace s' = trace s @ evs \<and> cleanup_log \<notin> set evs))"

definition aside :: "state \<Rightarrow> state \<Rightarrow> bool" where
  "aside s s' = (instances s' = instances s \<and> project_id s' = project_id s \<and> extends s s')"

definition stepwise :: "(state \<Rightarrow> state \<Rightarrow> bool) \<Rightarrow> bool" where
  "stepwise R = ((\<forall>s. R s s) \<and> (\<forall>s t u. R s t \<longrightarrow> R t u \<longrightarrow> R s u))"

definition steps :: "(state \<Rightarrow> state \<Rightarrow> bool) \<Rightarrow> (state \<Rightarrow> 'r \<times> state) \<Rightarrow> bool" where
  "steps R f = (\<forall>s. R s (snd (f s)))"

text \<open>The events of one install phase whose command returns \<open>rc\<close>.\<close>

definition phase_events :: "string \<Rightarrow> int \<Rightarrow> event list" where
  "phase_events flag rc =
     Cmd (phase_cmd flag) rc
     # (if rc \<noteq> 0 then [Log Error ''Command {} returned code {}'' [Str (phase_cmd flag), Num rc]]
        else [])"

text \<open>
  The state in which \<open>recover_instance_error\<close> starts to delete: the recovery is logged
  and entry \<open>i\<close> has left the working set.
\<close>

definition recovering :: "nat \<Rightarrow> state \<Rightarrow> state" where
  "recovering i s =
     (log_msg Info ''Encountered OVH Cloud ERROR - trying to replace failed instance'' [] s)
     \<lparr>instances := del_at i (instances s)\<rparr>"

section \<open>Properties of the gateway\<close>

lemma retry_3:
  "retry 3 f s =
     (case f s of
        (Inr v, s1) \<Rightarrow> (Inr v, s1)
      | (Inl e1, s1) \<Rightarrow>
          (case f s1 of
             (Inr v, s2) \<Rightarrow> (Inr v, s2)
           | (Inl e2, s2) \<Rightarrow> f s2))"
  unfolding retry_def
  apply (subst retry_call.simps)
  apply (subst retry_call.simps)
  apply (subst retry_call.simps)
  apply (simp split: prod.splits sum.splits)
  done

lemma retry_3_attempts:
  assumes step: "\<And>s. f s = (case answer (trace s) of
                   Inl e \<Rightarrow> (Inl (APIError e), emit (ev (Some e)) s)
                 | Inr v \<Rightarrow> (Inr v, emit (ev None) s))"
  shows "\<exists>errs. snd (retry 3 f s) = s\<lparr>trace := trace s @ attempts ev errs (fst (retry 3 f s))\<rparr>
           \<and> (case fst (retry 3 f s) of
                 Inr v \<Rightarrow> length errs \<le> 2
               | Inl e \<Rightarrow> length errs = 3 \<and> e = APIError (last errs))"
proof (cases "answer (trace s)")
  case (Inr v)
  then show ?thesis
    by (intro exI[of _ "[]"]) (simp add: retry_3 step attempts_def emit_def)
next
  case e1: (Inl e1)
  show ?thesis
  proof (cases "answer (trace s @ [ev (Some e1)])")
    case (Inr v)
    with e1 show ?thesis
      by (intro exI[of _ "[e1]"]) (simp add: retry_3 step attempts_def emit_def)
  next
    case e2: (Inl e2)
    show ?thesis
    proof (cases "answer (trace s @ [ev (Some e1), ev (Some e2)])")
      case (Inr v)
      with e1 e2 show ?thesis
        by (intro exI[of _ "[e1, e2]"]) (simp add: retry_3 step attempts_def emit_def)
    next
      case (Inl e3)
      with e1 e2 show ?thesis
        by (intro exI[of _ "[e1, e2, e3]"]) (simp add: retry_3 step attempts_def emit_def)
    qed
  qed
qed

lemma ovh_get_attempts:
  "\<exists>errs. snd (ovh_get answer path s)
        = s\<lparr>trace := trace s @ attempts (HttpGet path) errs (fst (ovh_get answer path s))\<rparr>
      \<and> (case fst (ovh_get answer path s) of
            Inr v \<Rightarrow> length errs \<le> 2
          | Inl e \<Rightarrow> length errs = 3 \<and> e = APIError (last errs))"
  unfolding ovh_get_def
  by (rule retry_3_attempts[where answer = "\<lambda>h. answer h path"]) (simp add: super_get_def)

lemma ovh_delete_attempts:
  "\<exists>errs. snd (ovh_delete answer path s)
        = s\<lparr>trace := trace s @ attempts (HttpDelete path) errs (fst (ovh_delete answer path s))\<rparr>
      \<and> (case fst (ovh_delete answer path s) of
            Inr v \<Rightarrow> length errs \<le> 2
          | Inl e \<Rightarrow> length errs = 3 \<and> e = APIError (last errs))"
  unfolding ovh_delete_def
  by (rule retry_3_attempts[where answer = "\<lambda>h. answer h path"]) (simp add: super_delete_def)

lemma ovh_post_attempts:
  "\<exists>errs. snd (ovh_post answer path body s)
        = s\<lparr>trace := trace s @ attempts (HttpPost path body) errs (fst (ovh_post answer path body s))\<rparr>
      \<and> (case fst (ovh_post answer path body s) of
            Inr v \<Rightarrow> length errs = 0
          | Inl e \<Rightarrow> length errs = 1 \<and> e = APIError (last errs))"
proof (cases "answer (trace s) path body")
  case (Inl e)
  then show ?thesis
    by (intro exI[of _ "[e]"]) (simp add: ovh_post_def super_post_def attempts_def emit_def)
next
  case (Inr v)
  then show ?thesis
    by (intro exI[of _ "[]"]) (simp add: ovh_post_def super_post_def attempts_def emit_def)
qed

text \<open>
  C7, as the code has it. A \<open>get\<close> and a \<open>delete\<close> are attempted up to three times: the
  attempts stop at the first success, after at most two failures, and an error reaches
  the caller only as the third failure in a row. A \<open>post\<close> is attempted once: it returns,
  or its one failure reaches the caller.
\<close>

theorem gateway_attempts:
  "(\<exists>errs. snd (ovh_get answer path s)
        = s\<lparr>trace := trace s @ attempts (HttpGet path) errs (fst (ovh_get answer path s))\<rparr>
      \<and> (case fst (ovh_get answer path s) of
            Inr v \<Rightarrow> length errs \<le> 2
          | Inl e \<Rightarrow> length errs = 3 \<and> e = APIError (last errs)))
   \<and> (\<exists>errs. snd (ovh_delete answer' path s)
        = s\<lparr>trace := trace s @ attempts (HttpDelete path) errs (fst (ovh_delete answer' path s))\<rparr>
      \<and> (case fst (ovh_delete answer' path s) of
            Inr v \<Rightarrow> length errs \<le> 2
          | Inl e \<Rightarrow> length errs = 3 \<and> e = APIError (last errs)))
   \<and> (\<exists>errs. snd (ovh_post answer'' path body s)
        = s\<lparr>trace := trace s @ attempts (HttpPost path body) errs (fst (ovh_post answer'' path body s))\<rparr>
      \<and> (case fst (ovh_post answer'' path body s) of
            Inr v \<Rightarrow> length errs = 0
          | Inl e \<Rightarrow> length errs = 1 \<and> e = APIError (last errs)))"
  by (intro conjI ovh_get_attempts ovh_delete_attempts ovh_post_attempts)

text \<open>
  A \<open>delete\<close> that fails twice with a network error and then succeeds takes three attempts;
  a \<open>post\<close> that fails with a network error is not attempted again.
\<close>

theorem gateway_attempts_witness:
  "ovh_delete third_time ''/x'' fresh =
     (Inr (), fresh\<lparr>trace := [HttpDelete ''/x'' (Some NetworkError),
                               HttpDelete ''/x'' (Some NetworkError), HttpDelete ''/x'' None]\<rparr>)
   \<and> attempts (HttpDelete ''/x'') [NetworkError, NetworkError]
        (fst (ovh_delete third_time ''/x'' fresh)) = trace (snd (ovh_delete third_time ''/x'' fresh))"
  using gateway_attempts[of "api_instance (env_failing NetworkError)" "''/x''" fresh third_time
      "api_bulk (env_failing NetworkError)" body0]
  by (simp add: ovh_delete_def retry_3 super_delete_def third_time_def emit_def fresh_def
      attempts_def)

text \<open>
  C7 as stated fails for \<open>post\<close>: a transient failure of the one attempt is what the caller
  gets.
\<close>

theorem gateway_post_counterexample:
  "ovh_post (api_bulk (env_failing NetworkError)) ''/x'' body0 fresh =
     (Inl (APIError NetworkError), fresh\<lparr>trace := [HttpPost ''/x'' body0 (Some NetworkError)]\<rparr>)"
  by (simp add: ovh_post_def super_post_def env_failing_def emit_def fresh_def)

text \<open>
  C6 as stated fails for \<open>get\<close>: a request that the provider rejects with status 400 is
  sent three times.
\<close>

theorem gateway_permanent_counterexample:
  "permanent (HTTPError 400) \<and>
   ovh_get (api_instance (env_failing (HTTPError 400))) ''/x'' fresh =
     (Inl (APIError (HTTPError 400)),
      fresh\<lparr>trace := [HttpGet ''/x'' (Some (HTTPError 400)), HttpGet ''/x'' (Some (HTTPError 400)),
                       HttpGet ''/x'' (Some (HTTPError 400))]\<rparr>)"
  by (simp add: permanent_def ovh_get_def retry_3 super_get_def env_failing_def emit_def fresh_def)

text \<open>
  C6, as the code has it. The gateway does not look at the kind of a failure. When the
  provider answers a request with the same error every time, permanent or not, a \<open>get\<close>
  and a \<open>delete\<close> send it three times before the error reaches the caller; only a \<open>post\<close>
  gives the error to the caller after one attempt.
\<close>

theorem gateway_persistent_failure:
  assumes "\<And>h. answer h path = Inl e"
    and "\<And>h. answer' h path = Inl e"
    and "\<And>h. answer'' h path body = Inl e"
  shows "ovh_get answer path s =
           (Inl (APIError e),
            s\<lparr>trace := trace s @ [HttpGet path (Some e), HttpGet path (Some e), HttpGet path (Some e)]\<rparr>)
       \<and> ovh_delete answer' path s =
           (Inl (APIError e),
            s\<lparr>trace := trace s @ [HttpDelete path (Some e), HttpDelete path (Some e),
                                  HttpDelete path (Some e)]\<rparr>)
       \<and> ovh_post answer'' path body s =
           (Inl (APIError e), s\<lparr>trace := trace s @ [HttpPost path body (Some e)]\<rparr>)"
  using assms
  by (simp add: ovh_get_def ovh_delete_def ovh_post_def retry_3 super_get_def super_delete_def
      super_post_def emit_def)

theorem gateway_persistent_failure_witness:
  "permanent (HTTPError 404)
   \<and> fst (ovh_get (api_flavors (env_failing (HTTPError 404))) ''/y'' fresh)
       = Inl (APIError (HTTPError 404))
   \<and> length (trace (snd (ovh_get (api_flavors (env_failing (HTTPError 404))) ''/y'' fresh))) = 3
   \<and> length (trace (snd (ovh_delete (api_delete (env_failing (HTTPError 404))) ''/y'' fresh))) = 3
   \<and> length (trace (snd (ovh_post (api_bulk (env_failing (HTTPError 404))) ''/y'' body0 fresh))) = 1"
  using gateway_persistent_failure[of "api_flavors (env_failing (HTTPError 404))" "''/y''"
      "HTTPError 404" "api_delete (env_failing (HTTPError 404))"
      "api_bulk (env_failing (HTTPError 404))" body0 fresh]
  by (simp add: env_failing_def permanent_def fresh_def)

section \<open>Role assignment\<close>

lemma those_length: "those xs = Some ys \<Longrightarrow> length ys = length xs"
  by (induction xs arbitrary: ys) (auto split: option.splits)

lemma ips_of_length: "ips_of xs = Inr ips \<Longrightarrow> length ips = length xs"
  using those_length[of "map inst_ip xs" ips]
  by (auto simp: ips_of_def split: option.splits)

text \<open>
  What does hold of the two lists: with at least one agent and no negative count, on a
  working set of \<open>masters + agents\<close> ready entries, the masters are the first
  \<open>masters\<close> addresses, the agents are the rest, and together they are the whole list.
\<close>

lemma role_partition:
  assumes "0 \<le> arg_masters a" and "1 \<le> arg_agents a"
    and "ips_of (instances s) = Inr ips"
    and "int (length (instances s)) = arg_masters a + arg_agents a"
  shows "\<exists>cfg. config (snd (write_config a s)) = Some cfg
           \<and> master_list cfg = take (nat (arg_masters a)) ips
           \<and> agent_list cfg = drop (nat (arg_masters a)) ips
           \<and> master_list cfg @ agent_list cfg = ips"
proof -
  from ips_of_length[OF assms(3)] assms(4)
  have len: "int (length ips) = arg_masters a + arg_agents a" by simp
  with assms(1,2) have "length ips - nat (arg_agents a) = nat (arg_masters a)" by linarith
  with assms show ?thesis
    by (simp add: write_config_def slice_from_def slice_to_def emit_def Let_def)
qed

text \<open>
  C4 fails on the code at \<open>--masters 1 --agents 0\<close>: the one instance is a master and,
  since \<open>[-0:]\<close> is the whole list, an agent as well.
\<close>

theorem role_assignment_zero_agents:
  "config (snd (write_config (default_args 1 0) (fresh\<lparr>instances := [ready ''a'' ''10.0.0.1'']\<rparr>)))
     = Some \<lparr>master_list = [''10.0.0.1''], agent_list = [''10.0.0.1''], ssh_user = ''centos''\<rparr>"
  by (simp add: default_args_def fresh_def ready_def ips_of_def write_config_def slice_to_def
      slice_from_def emit_def Let_def)

text \<open>
  C10. With \<open>agents = 0\<close>, \<open>write_config\<close> on a working set of ready entries succeeds and
  \<open>agent_list\<close> is the list of all addresses; when the working set has the
  \<open>masters + agents\<close> entries that were requested, \<open>master_list\<close> is that list too, so
  every instance is in both.
\<close>

theorem write_config_no_agents:
  assumes "arg_agents a = 0" and "ips_of (instances s) = Inr ips"
  shows "fst (write_config a s) = Inr ()
       \<and> map_option agent_list (config (snd (write_config a s))) = Some ips
       \<and> (int (length (instances s)) = arg_masters a + arg_agents a
            \<longrightarrow> map_option master_list (config (snd (write_config a s))) = Some ips)"
  using assms ips_of_length[OF assms(2)]
  by (auto simp: write_config_def slice_from_def slice_to_def emit_def Let_def)

theorem write_config_no_agents_witness:
  "arg_agents (default_args 2 0) = 0
   \<and> ips_of (instances (fresh\<lparr>instances := [ready ''a'' ''10.0.0.1'', ready ''b'' ''10.0.0.2'']\<rparr>))
       = Inr [''10.0.0.1'', ''10.0.0.2'']
   \<and> int (length (instances
         (fresh\<lparr>instances := [ready ''a'' ''10.0.0.1'', ready ''b'' ''10.0.0.2'']\<rparr>)))
       = arg_masters (default_args 2 0) + arg_agents (default_args 2 0)
   \<and> config (snd (write_config (default_args 2 0)
         (fresh\<lparr>instances := [ready ''a'' ''10.0.0.1'', ready ''b'' ''10.0.0.2'']\<rparr>)))
       = Some \<lparr>master_list = [''10.0.0.1'', ''10.0.0.2''],
               agent_list = [''10.0.0.1'', ''10.0.0.2''], ssh_user = ''centos''\<rparr>"
  using write_config_no_agents[of "default_args 2 0"
      "fresh\<lparr>instances := [ready ''a'' ''10.0.0.1'', ready ''b'' ''10.0.0.2'']\<rparr>"
      "[''10.0.0.1'', ''10.0.0.2'']"]
  by (simp add: default_args_def fresh_def ready_def ips_of_def write_config_def slice_to_def
      slice_from_def emit_def Let_def)

section \<open>Resource catalog\<close>

lemma lookup2_state: "snd (lookup2 category r n s) = snd (category s)"
  by (simp add: lookup2_def bind_def ret_def split: sum.splits prod.splits)

lemma lookups_cached:
  assumes "\<And>s. P s \<Longrightarrow> snd (category s) = s"
    and "P s"
  shows "lookups category keys s = s"
  unfolding lookups_def
  using assms(2)
  by (induction keys) (simp_all add: lookup2_state assms(1) split: prod.splits)

lemma attempts_get_only: "Log lv fmt xs \<notin> set (attempts (HttpGet path) errs r)"
  by (auto simp: attempts_def split: sum.splits)

lemma ovh_get_no_log:
  "\<exists>evs. trace (snd (ovh_get answer path s)) = trace s @ evs \<and> Log lv fmt xs \<notin> set evs"
proof -
  from ovh_get_attempts[of answer path s] obtain errs
    where "snd (ovh_get answer path s)
        = s\<lparr>trace := trace s @ attempts (HttpGet path) errs (fst (ovh_get answer path s))\<rparr>"
    by blast
  then have "trace (snd (ovh_get answer path s))
        = trace s @ attempts (HttpGet path) errs (fst (ovh_get answer path s))"
    by simp
  with attempts_get_only show ?thesis by blast
qed

lemma fold_quiet:
  assumes "\<And>x s. \<exists>evs. trace (g x s) = trace s @ evs \<and> ev \<notin> set evs"
  shows "\<exists>evs. trace (fold g xs s) = trace s @ evs \<and> ev \<notin> set evs"
proof (induction xs arbitrary: s)
  case Nil
  show ?case by simp
next
  case (Cons x xs)
  from assms[of x s] obtain e1 where 1: "trace (g x s) = trace s @ e1" "ev \<notin> set e1" by blast
  from Cons.IH[of "g x s"] obtain e2
    where 2: "trace (fold g xs (g x s)) = trace (g x s) @ e2" "ev \<notin> set e2" by blast
  from 1 2 show ?case by (intro exI[of _ "e1 @ e2"]) simp
qed

lemma add_flavor_quiet:
  "\<exists>evs. trace (add_flavor f s) = trace s @ evs \<and> fetching_flavors \<notin> set evs"
  by (simp add: add_flavor_def log_msg_def emit_def fetching_flavors_def)

lemma add_image_quiet:
  "\<exists>evs. trace (add_image f s) = trace s @ evs \<and> fetching_images \<notin> set evs"
  by (simp add: add_image_def log_msg_def emit_def fetching_images_def)

lemma add_ssh_key_quiet:
  "\<exists>evs. trace (add_ssh_key k s) = trace s @ evs \<and> fetching_ssh_keys \<notin> set evs"
  unfolding add_ssh_key_def
  by (rule fold_quiet)
     (simp add: add_ssh_key_region_def log_msg_def emit_def fetching_ssh_keys_def)

lemma fetch_once:
  assumes get: "\<exists>e1. trace s1 = (trace s @ [ev]) @ e1 \<and> ev \<notin> set e1"
    and rest: "\<exists>e2. trace s2 = trace s1 @ e2 \<and> ev \<notin> set e2"
  shows "count_list (new_events s s2) ev = 1"
proof -
  from get obtain e1 where 1: "trace s1 = (trace s @ [ev]) @ e1" "ev \<notin> set e1" by blast
  from rest obtain e2 where 2: "trace s2 = trace s1 @ e2" "ev \<notin> set e2" by blast
  from 1 2 have "new_events s s2 = ev # e1 @ e2" by (simp add: new_events_def)
  with 1 2 show ?thesis by (simp add: count_list_0_iff)
qed

lemma fetch_pattern:
  assumes "\<And>x s. \<exists>evs. trace (g x s) = trace s @ evs \<and> Log Debug fmt [] \<notin> set evs"
  shows "count_list (new_events s (snd (bind (ovh_get answer path)
            (\<lambda>listing s1. let s2 = fold g listing s1 in (Inr (sel s2), s2))
            (log_msg Debug fmt [] s)))) (Log Debug fmt []) = 1"
proof -
  let ?s0 = "log_msg Debug fmt [] s"
  obtain r s1 where geq: "ovh_get answer path ?s0 = (r, s1)"
    by (cases "ovh_get answer path ?s0")
  have t0: "trace ?s0 = trace s @ [Log Debug fmt []]"
    by (simp add: log_msg_def emit_def)
  from ovh_get_no_log[of answer path ?s0 Debug fmt "[]"] geq
  have g: "\<exists>e1. trace s1 = (trace s @ [Log Debug fmt []]) @ e1 \<and> Log Debug fmt [] \<notin> set e1"
    unfolding t0 by simp
  have "\<exists>e2. trace (snd (bind (ovh_get answer path)
            (\<lambda>listing s1. let s2 = fold g listing s1 in (Inr (sel s2), s2)) ?s0))
          = trace s1 @ e2 \<and> Log Debug fmt [] \<notin> set e2"
  proof (cases r)
    case (Inl e)
    with geq show ?thesis by (simp add: bind_def)
  next
    case (Inr listing)
    from fold_quiet[of g "Log Debug fmt []" listing s1, OF assms] geq Inr
    show ?thesis by (simp add: bind_def Let_def)
  qed
  from fetch_once[OF g this] show ?thesis .
qed

lemma flavors_fetch:
  "count_list (new_events s (snd (flavors env s))) fetching_flavors
     = (if priv_flavors s = [] then 1 else 0)"
proof (cases "priv_flavors s = []")
  case False
  then show ?thesis by (simp add: flavors_def new_events_def)
next
  case True
  from fetch_pattern[of add_flavor "''Fetching machine types from OVH API''" s
      "api_flavors env" "''/cloud/project/'' @ project_id s @ ''/flavor''" priv_flavors]
    add_flavor_quiet True
  show ?thesis by (simp add: flavors_def fetching_flavors_def)
qed

lemma images_fetch:
  "count_list (new_events s (snd (images env s))) fetching_images
     = (if priv_images s = [] then 1 else 0)"
proof (cases "priv_images s = []")
  case False
  then show ?thesis by (simp add: images_def new_events_def)
next
  case True
  from fetch_pattern[of add_image "''Fetching OS Images from OVH API''" s
      "api_images env" "''/cloud/project/'' @ project_id s @ ''/image''" priv_images]
    add_image_quiet True
  show ?thesis by (simp add: images_def fetching_images_def)
qed

lemma ssh_keys_fetch:
  "count_list (new_events s (snd (ssh_keys env s))) fetching_ssh_keys
     = (if priv_ssh_keys s = [] then 1 else 0)"
proof (cases "priv_ssh_keys s = []")
  case False
  then show ?thesis by (simp add: ssh_keys_def new_events_def)
next
  case True
  from fetch_pattern[of add_ssh_key "''Fetching ssh keys from OVH API''" s
      "api_ssh_keys env" "''/cloud/project/'' @ project_id s @ ''/sshkey''" priv_ssh_keys]
    add_ssh_key_quiet True
  show ?thesis by (simp add: ssh_keys_def fetching_ssh_keys_def)
qed

text \<open>
  C9, as the code has it. A lookup asks the gateway for the listing of its category
  exactly when the mapping of that category is empty, and then once. So once a mapping
  is populated, no sequence of lookups in its category fetches again or changes the
  state at all; a listing that left the mapping empty is fetched again by the next lookup.
\<close>

theorem catalog_memoized:
  "count_list (new_events s (snd (lookup2 (flavors env) r n s))) fetching_flavors
     = (if priv_flavors s = [] then 1 else 0)
   \<and> count_list (new_events s (snd (lookup2 (images env) r n s))) fetching_images
     = (if priv_images s = [] then 1 else 0)
   \<and> count_list (new_events s (snd (lookup2 (ssh_keys env) r n s))) fetching_ssh_keys
     = (if priv_ssh_keys s = [] then 1 else 0)
   \<and> (priv_flavors s \<noteq> [] \<longrightarrow> lookups (flavors env) keys s = s)
   \<and> (priv_images s \<noteq> [] \<longrightarrow> lookups (images env) keys s = s)
   \<and> (priv_ssh_keys s \<noteq> [] \<longrightarrow> lookups (ssh_keys env) keys s = s)"
proof (intro conjI impI)
  show "count_list (new_events s (snd (lookup2 (flavors env) r n s))) fetching_flavors
     = (if priv_flavors s = [] then 1 else 0)"
    unfolding lookup2_state by (rule flavors_fetch)
  show "count_list (new_events s (snd (lookup2 (images env) r n s))) fetching_images
     = (if priv_images s = [] then 1 else 0)"
    unfolding lookup2_state by (rule images_fetch)
  show "count_list (new_events s (snd (lookup2 (ssh_keys env) r n s))) fetching_ssh_keys
     = (if priv_ssh_keys s = [] then 1 else 0)"
    unfolding lookup2_state by (rule ssh_keys_fetch)
  show "lookups (flavors env) keys s = s" if "priv_flavors s \<noteq> []"
    by (rule lookups_cached[where P = "\<lambda>s. priv_flavors s \<noteq> []", OF _ that])
       (simp add: flavors_def)
  show "lookups (images env) keys s = s" if "priv_images s \<noteq> []"
    by (rule lookups_cached[where P = "\<lambda>s. priv_images s \<noteq> []", OF _ that])
       (simp add: images_def)
  show "lookups (ssh_keys env) keys s = s" if "priv_ssh_keys s \<noteq> []"
    by (rule lookups_cached[where P = "\<lambda>s. priv_ssh_keys s \<noteq> []", OF _ that])
       (simp add: ssh_keys_def)
qed

text \<open>
  C9 as stated fails when the listing gives the mapping no entry: each of two lookups
  fetches.
\<close>

theorem catalog_refetch_counterexample:
  "count_list (trace (lookups (flavors no_flavors) [(''SBG1'', ''hg-15''), (''SBG1'', ''hg-15'')] fresh))
     fetching_flavors = 2"
  by code_simp

lemma catalog_run:
  "priv_flavors (lookups (flavors (cloud active deleted preflight_fails)) [(''SBG1'', ''hg-15'')] fresh)
     = [(''SBG1'', [(''hg-15'', ''f1'')])]"
  by code_simp

lemma catalog_run_count:
  "count_list (trace (lookups (flavors (cloud active deleted preflight_fails))
       [(''SBG1'', ''hg-15''), (''SBG1'', ''hg-15''), (''GRA1'', ''hg-15'')] fresh))
     fetching_flavors = 1"
  by code_simp

theorem catalog_memoized_witness:
  "priv_flavors (lookups (flavors (cloud active deleted preflight_fails)) [(''SBG1'', ''hg-15'')] fresh)
     = [(''SBG1'', [(''hg-15'', ''f1'')])]
   \<and> lookups (flavors (cloud active deleted preflight_fails))
         [(''SBG1'', ''hg-15''), (''GRA1'', ''hg-15'')]
         (lookups (flavors (cloud active deleted preflight_fails)) [(''SBG1'', ''hg-15'')] fresh)
       = lookups (flavors (cloud active deleted preflight_fails)) [(''SBG1'', ''hg-15'')] fresh
   \<and> count_list (trace (lookups (flavors (cloud active deleted preflight_fails))
         [(''SBG1'', ''hg-15''), (''SBG1'', ''hg-15''), (''GRA1'', ''hg-15'')] fresh))
       fetching_flavors = 1"
  using catalog_memoized[of
      "lookups (flavors (cloud active deleted preflight_fails)) [(''SBG1'', ''hg-15'')] fresh"
      "cloud active deleted preflight_fails" "''SBG1''" "''hg-15''"
      "[(''SBG1'', ''hg-15''), (''GRA1'', ''hg-15'')]"]
    catalog_run catalog_run_count
  by simp


section \<open>System preparation\<close>

lemma prep_retry_done: "prep_retry env host cmd retries True s = (Inr (), s)"
  by (subst prep_retry.simps) simp

lemma prep_retry_shape:
  "\<exists>rcs ok. bounded n (rcs, ok)
     \<and> prep_retry env host cmd (int n) False s
         = (Inr (), s\<lparr>trace := trace s @ attempt_events host cmd (int n) rcs ok\<rparr>)"
proof (induction n arbitrary: s)
  case 0
  show ?case
    by (intro exI[of _ "[]"] exI[of _ False]) (subst prep_retry.simps, simp add: bounded_def)
next
  case (Suc n)
  let ?rc = "os_returncode env (trace s) cmd"
  show ?case
  proof (cases "?rc = 0")
    case True
    then show ?thesis
      by (intro exI[of _ "[]"] exI[of _ True])
         (subst prep_retry.simps, simp add: bounded_def stream_cmd_def Let_def emit_def
            prep_retry_done)
  next
    case False
    let ?s1 = "sleep 10 (log_msg Debug ''Failed to prepare {} - {} retries left''
                  [Str host, Num (int (Suc n) - 1)]
                  (log_msg Error ''Command {} returned code {}'' [Str cmd, Num ?rc]
                     (emit (Cmd cmd ?rc) s)))"
    from Suc.IH[of ?s1] obtain rcs ok where b: "bounded n (rcs, ok)"
      and r: "prep_retry env host cmd (int n) False ?s1
                = (Inr (), ?s1\<lparr>trace := trace ?s1 @ attempt_events host cmd (int n) rcs ok\<rparr>)"
      by blast
    have step: "prep_retry env host cmd (int (Suc n)) False s
                  = prep_retry env host cmd (int n) False ?s1"
      using False by (subst prep_retry.simps) (simp add: stream_cmd_def Let_def)
    show ?thesis
      unfolding step
      using b r False
      by (intro exI[of _ "?rc # rcs"] exI[of _ ok])
         (auto simp: bounded_def sleep_def log_msg_def emit_def split: if_splits)
  qed
qed

lemma prep_host_shape:
  "\<exists>outcome. bounded 3 outcome
     \<and> prep_host env a \<lparr>inst_id = i, inst_ip = Some host\<rparr> s
         = (Inr (), s\<lparr>trace := trace s @ host_events (arg_ssh_user a) host outcome\<rparr>)"
proof -
  let ?s0 = "log_msg Debug ''Preparing {}'' [Str host] s"
  from prep_retry_shape[of 3 env host "ssh_cmd (arg_ssh_user a) host" ?s0]
  obtain rcs ok where "bounded 3 (rcs, ok)"
    and "prep_retry env host (ssh_cmd (arg_ssh_user a) host) 3 False ?s0
           = (Inr (), ?s0\<lparr>trace := trace ?s0
                @ attempt_events host (ssh_cmd (arg_ssh_user a) host) 3 rcs ok\<rparr>)"
    by auto
  then show ?thesis
    by (intro exI[of _ "(rcs, ok)"])
       (simp add: prep_host_def host_events_def log_msg_def emit_def)
qed

lemma for_each_prep_host:
  assumes "ips_of xs = Inr hosts"
  shows "\<exists>outcomes. length outcomes = length hosts \<and> list_all (bounded 3) outcomes
     \<and> for_each (prep_host env a) xs s
         = (Inr (), s\<lparr>trace := trace s
              @ concat (map2 (host_events (arg_ssh_user a)) hosts outcomes)\<rparr>)"
  using assms
proof (induction xs arbitrary: s hosts)
  case Nil
  then show ?case by (simp add: ips_of_def)
next
  case (Cons x xs)
  from Cons.prems obtain h hs where x: "inst_ip x = Some h" and hosts: "hosts = h # hs"
    and hs: "ips_of xs = Inr hs"
    by (auto simp: ips_of_def split: option.splits)
  have xeq: "x = \<lparr>inst_id = inst_id x, inst_ip = Some h\<rparr>" using x by (cases x) simp
  from prep_host_shape[of env a "inst_id x" h s] xeq
  obtain outcome where o: "bounded 3 outcome"
    and p: "prep_host env a x s
              = (Inr (), s\<lparr>trace := trace s @ host_events (arg_ssh_user a) h outcome\<rparr>)"
    by metis
  let ?s1 = "s\<lparr>trace := trace s @ host_events (arg_ssh_user a) h outcome\<rparr>"
  from Cons.IH[OF hs, of ?s1] obtain outcomes where l: "length outcomes = length hs"
    and a: "list_all (bounded 3) outcomes"
    and f: "for_each (prep_host env a) xs ?s1
              = (Inr (), ?s1\<lparr>trace := trace ?s1
                   @ concat (map2 (host_events (arg_ssh_user a)) hs outcomes)\<rparr>)"
    by blast
  show ?case
    using o p l a f hosts
    by (intro exI[of _ "outcome # outcomes"]) simp
qed

text \<open>
  C8. On a working set of ready entries \<open>system_prep\<close> returns normally, whatever the
  commands return, and its events are, host after host in the order of the working set,
  those of one to three attempts: a success after at most two failures, or three
  failures. Every failed attempt is logged and followed by a sleep of 10 seconds; the
  third failure is logged with 0 retries left, and the next host follows.
\<close>

theorem system_prep_all_hosts:
  assumes "ips_of (instances s) = Inr hosts"
  shows "\<exists>outcomes. length outcomes = length hosts \<and> list_all (bounded 3) outcomes
     \<and> system_prep env a s
         = (Inr (), s\<lparr>trace := trace s
              @ Log Info ''Preparing OVH systems for DC/OS installation'' []
              # concat (map2 (host_events (arg_ssh_user a)) hosts outcomes)\<rparr>)"
proof -
  let ?s0 = "log_msg Info ''Preparing OVH systems for DC/OS installation'' [] s"
  have "ips_of (instances ?s0) = Inr hosts"
    using assms by (simp add: log_msg_def emit_def)
  from for_each_prep_host[OF this, of env a ?s0]
  show ?thesis
    by (auto simp: system_prep_def Let_def log_msg_def emit_def)
qed

theorem system_prep_all_hosts_witness:
  "ips_of (instances two_ready) = Inr [''10.0.0.1'', ''10.0.0.2'']
   \<and> fst (system_prep env_unreachable (default_args 1 1) two_ready) = Inr ()
   \<and> commands (trace (snd (system_prep env_unreachable (default_args 1 1) two_ready)))
       = [(ssh_cmd ''centos'' ''10.0.0.1'', 255), (ssh_cmd ''centos'' ''10.0.0.1'', 255),
          (ssh_cmd ''centos'' ''10.0.0.1'', 255), (ssh_cmd ''centos'' ''10.0.0.2'', 0)]
   \<and> length (filter (\<lambda>ev. ev = Sleep 10)
         (trace (snd (system_prep env_unreachable (default_args 1 1) two_ready)))) = 3"
  using system_prep_all_hosts[of two_ready "[''10.0.0.1'', ''10.0.0.2'']" env_unreachable
      "default_args 1 1"]
  by (simp add: two_ready_def fresh_def ready_def ips_of_def system_prep_def prep_host_def
      prep_retry.simps stream_cmd_def env_unreachable_def env_failing_def default_args_def
      log_msg_def emit_def sleep_def Let_def)

section \<open>What each operation leaves alone\<close>

lemma extends_refl: "extends s s"
  by (simp add: extends_def)

lemma extends_trans: "extends s t \<Longrightarrow> extends t u \<Longrightarrow> extends s u"
  by (auto simp: extends_def)

lemma stepwise_extends: "stepwise extends"
  unfolding stepwise_def using extends_refl extends_trans by blast

lemma stepwise_aside: "stepwise aside"
  unfolding stepwise_def aside_def using extends_refl extends_trans by metis

lemma aside_extends: "aside s s' \<Longrightarrow> extends s s'"
  by (simp add: aside_def)

lemma steps_aside_extends: "steps aside f \<Longrightarrow> steps extends f"
  by (simp add: steps_def aside_extends)

lemma stepsD: "steps R f \<Longrightarrow> f s = (r, s') \<Longrightarrow> R s s'"
  by (auto simp: steps_def dest: spec[of _ s])

lemma stepwise_refl: "stepwise R \<Longrightarrow> R s s"
  by (simp add: stepwise_def)

lemma stepwise_trans: "stepwise R \<Longrightarrow> R s t \<Longrightarrow> R t u \<Longrightarrow> R s u"
  unfolding stepwise_def by blast

lemma steps_ret: "stepwise R \<Longrightarrow> steps R (ret r)"
  by (simp add: steps_def ret_def stepwise_refl)

lemma steps_bind:
  assumes "stepwise R" and "steps R m" and "\<And>x. steps R (f x)"
  shows "steps R (bind m f)"
  unfolding steps_def
proof
  fix s
  obtain r s1 where m: "m s = (r, s1)" by (cases "m s")
  from stepsD[OF assms(2) m] have 1: "R s s1" .
  show "R s (snd (bind m f s))"
  proof (cases r)
    case (Inl e)
    with m 1 show ?thesis by (simp add: bind_def)
  next
    case (Inr x)
    obtain r2 s2 where f: "f x s1 = (r2, s2)" by (cases "f x s1")
    from stepsD[OF assms(3) f] have 2: "R s1 s2" .
    from stepwise_trans[OF assms(1) 1 2] m Inr f show ?thesis by (simp add: bind_def)
  qed
qed

lemma steps_for_each:
  assumes "stepwise R" and "\<And>x. steps R (body x)"
  shows "steps R (for_each body xs)"
  unfolding steps_def
proof
  fix s
  show "R s (snd (for_each body xs s))"
  proof (induction xs arbitrary: s)
    case Nil
    show ?case using assms(1) by (simp add: stepwise_refl)
  next
    case (Cons x xs)
    obtain r s1 where b: "body x s = (r, s1)" by (cases "body x s")
    from stepsD[OF assms(2) b] have 1: "R s s1" .
    show ?case
    proof (cases r)
      case (Inl e)
      with b 1 show ?thesis by simp
    next
      case (Inr u)
      from stepwise_trans[OF assms(1) 1 Cons.IH[of s1]] b Inr show ?thesis by simp
    qed
  qed
qed

lemma steps_retry_call:
  assumes "stepwise R" and "steps R f"
  shows "steps R (retry_call m k f)"
  unfolding steps_def
proof
  fix s
  from assms(2) show "R s (snd (retry_call m k f s))"
  proof (induction m k f s rule: retry_call.induct)
    case (1 m k f s)
    obtain r s1 where f: "f s = (r, s1)" by (cases "f s")
    from stepsD[OF "1.prems" f] have r1: "R s s1" .
    show ?case
    proof (cases r)
      case (Inr v)
      with f r1 show ?thesis by (subst retry_call.simps) simp
    next
      case (Inl e)
      show ?thesis
      proof (cases "m \<le> k")
        case True
        with f Inl r1 show ?thesis by (subst retry_call.simps) simp
      next
        case False
        from "1.IH"[OF f[symmetric] Inl] False "1.prems"
        have "R s1 (snd (retry_call m (Suc k) f s1))" by simp
        from stepwise_trans[OF assms(1) r1 this] f Inl False
        show ?thesis by (subst retry_call.simps) simp
      qed
    qed
  qed
qed

lemma steps_fold:
  assumes "stepwise R" and "\<And>x s. R s (g x s)"
  shows "R s (fold g xs s)"
proof (induction xs arbitrary: s)
  case Nil
  show ?case using assms(1) by (simp add: stepwise_refl)
next
  case (Cons x xs)
  from stepwise_trans[OF assms(1) assms(2)[of s x] Cons.IH[of "g x s"]]
  show ?case by simp
qed

lemma aside_emit: "ev \<noteq> cleanup_log \<Longrightarrow> aside s (emit ev s)"
  by (simp add: aside_def extends_def emit_def)

lemma aside_log: "Log lv fmt xs \<noteq> cleanup_log \<Longrightarrow> aside s (log_msg lv fmt xs s)"
  by (simp add: log_msg_def aside_emit)

lemma aside_sleep: "aside s (sleep n s)"
  by (simp add: sleep_def aside_emit cleanup_log_def)

lemma aside_refl: "aside s s"
  using stepwise_aside by (rule stepwise_refl)

lemma aside_trans: "aside s t \<Longrightarrow> aside t u \<Longrightarrow> aside s u"
  using stepwise_aside by (rule stepwise_trans)

text \<open>Updates of the fields that the two relations do not mention.\<close>

lemma aside_fields [simp]:
  "aside s (s'\<lparr>priv_projects := pp\<rparr>) = aside s s'"
  "aside s (s'\<lparr>priv_flavors := pf\<rparr>) = aside s s'"
  "aside s (s'\<lparr>priv_images := pi\<rparr>) = aside s s'"
  "aside s (s'\<lparr>priv_ssh_keys := pk\<rparr>) = aside s s'"
  "aside s (s'\<lparr>config := c\<rparr>) = aside s s'"
  by (simp_all add: aside_def extends_def)

lemma extends_fields [simp]:
  "extends s (s'\<lparr>instances := xs\<rparr>) = extends s s'"
  "extends s (s'\<lparr>project_id := p\<rparr>) = extends s s'"
  "extends s (s'\<lparr>config := c\<rparr>) = extends s s'"
  by (simp_all add: extends_def)

lemma steps_super_get: "steps aside (super_get answer path)"
  by (auto simp: steps_def super_get_def aside_emit cleanup_log_def split: sum.splits)

lemma steps_super_delete: "steps aside (super_delete answer path)"
  by (auto simp: steps_def super_delete_def aside_emit cleanup_log_def split: sum.splits)

lemma steps_super_post: "steps aside (super_post answer path body)"
  by (auto simp: steps_def super_post_def aside_emit cleanup_log_def split: sum.splits)

lemma steps_ovh_get: "steps aside (ovh_get answer path)"
  unfolding ovh_get_def retry_def
  by (rule steps_retry_call[OF stepwise_aside steps_super_get])

lemma steps_ovh_delete: "steps aside (ovh_delete answer path)"
  unfolding ovh_delete_def retry_def
  by (rule steps_retry_call[OF stepwise_aside steps_super_delete])

lemma steps_ovh_post: "steps aside (ovh_post answer path body)"
  unfolding ovh_post_def by (rule steps_super_post)

lemma steps_after:
  assumes "stepwise R" and "steps R f" and "R s t"
  shows "R s (snd (f t))"
  using assms by (metis stepwise_trans steps_def)

lemma aside_add_flavor: "aside s (add_flavor f s)"
  by (simp add: add_flavor_def aside_log cleanup_log_def aside_refl)

lemma aside_add_image: "aside s (add_image f s)"
  by (simp add: add_image_def aside_log cleanup_log_def)

lemma aside_add_ssh_key: "aside s (add_ssh_key k s)"
  unfolding add_ssh_key_def
  by (rule steps_fold[OF stepwise_aside])
     (simp add: add_ssh_key_region_def aside_log cleanup_log_def)

lemma steps_flavors: "steps aside (flavors env)"
  unfolding steps_def
proof
  fix s
  let ?s0 = "log_msg Debug ''Fetching machine types from OVH API'' [] s"
  have 0: "aside s ?s0" by (simp add: aside_log cleanup_log_def)
  have "steps aside (bind (ovh_get (api_flavors env) (''/cloud/project/'' @ project_id s @ ''/flavor''))
          (\<lambda>listing s1. let s2 = fold add_flavor listing s1 in (Inr (priv_flavors s2), s2)))"
    by (rule steps_bind[OF stepwise_aside steps_ovh_get])
       (simp add: steps_def Let_def steps_fold[OF stepwise_aside aside_add_flavor])
  from steps_after[OF stepwise_aside this 0]
  show "aside s (snd (flavors env s))"
    by (simp add: flavors_def aside_refl)
qed

lemma steps_images: "steps aside (images env)"
  unfolding steps_def
proof
  fix s
  let ?s0 = "log_msg Debug ''Fetching OS Images from OVH API'' [] s"
  have 0: "aside s ?s0" by (simp add: aside_log cleanup_log_def)
  have "steps aside (bind (ovh_get (api_images env) (''/cloud/project/'' @ project_id s @ ''/image''))
          (\<lambda>listing s1. let s2 = fold add_image listing s1 in (Inr (priv_images s2), s2)))"
    by (rule steps_bind[OF stepwise_aside steps_ovh_get])
       (simp add: steps_def Let_def steps_fold[OF stepwise_aside aside_add_image])
  from steps_after[OF stepwise_aside this 0]
  show "aside s (snd (images env s))"
    by (simp add: images_def aside_refl)
qed

lemma steps_ssh_keys: "steps aside (ssh_keys env)"
  unfolding steps_def
proof
  fix s
  let ?s0 = "log_msg Debug ''Fetching ssh keys from OVH API'' [] s"
  have 0: "aside s ?s0" by (simp add: aside_log cleanup_log_def)
  have "steps aside (bind (ovh_get (api_ssh_keys env) (''/cloud/project/'' @ project_id s @ ''/sshkey''))
          (\<lambda>listing s1. let s2 = fold add_ssh_key listing s1 in (Inr (priv_ssh_keys s2), s2)))"
    by (rule steps_bind[OF stepwise_aside steps_ovh_get])
       (simp add: steps_def Let_def steps_fold[OF stepwise_aside aside_add_ssh_key])
  from steps_after[OF stepwise_aside this 0]
  show "aside s (snd (ssh_keys env s))"
    by (simp add: ssh_keys_def aside_refl)
qed

lemma steps_lookup2: "steps aside category \<Longrightarrow> steps aside (lookup2 category r n)"
  unfolding lookup2_def
  by (intro steps_bind[OF stepwise_aside] steps_ret[OF stepwise_aside])

lemma steps_create_instance: "steps aside (create_instance env nm region flavor img ssh_key num)"
  unfolding create_instance_def
proof (intro steps_bind[OF stepwise_aside] steps_lookup2 steps_flavors steps_images steps_ssh_keys)
  fix flavor_id image_id ssh_key_id
  show "steps aside (\<lambda>s. bind (ovh_post (api_bulk env) (''/cloud/project/'' @ project_id s @ ''/instance/bulk'')
               \<lparr>post_serviceName = project_id s, post_flavorId = flavor_id,
                post_imageId = image_id, post_name = nm, post_region = region,
                post_sshKeyId = ssh_key_id, post_monthlyBilling = False, post_number = num\<rparr>)
         (\<lambda>r. ret (Inr (map (\<lambda>i. \<lparr>inst_id = i, inst_ip = None\<rparr>) r)))
         (log_msg Debug ''Creating {} instance{} in region {} of type {} with image {}''
            [Num num, Str (if num = 1 then [] else ''s''), Str region, Str flavor, Str img] s))"
    unfolding steps_def
  proof
    fix s
    let ?s0 = "log_msg Debug ''Creating {} instance{} in region {} of type {} with image {}''
            [Num num, Str (if num = 1 then [] else ''s''), Str region, Str flavor, Str img] s"
    have 0: "aside s ?s0" by (simp add: aside_log cleanup_log_def)
    have "steps aside (bind (ovh_post (api_bulk env) (''/cloud/project/'' @ project_id s @ ''/instance/bulk'')
               \<lparr>post_serviceName = project_id s, post_flavorId = flavor_id,
                post_imageId = image_id, post_name = nm, post_region = region,
                post_sshKeyId = ssh_key_id, post_monthlyBilling = False, post_number = num\<rparr>)
         (\<lambda>r. ret (Inr (map (\<lambda>i. \<lparr>inst_id = i, inst_ip = None\<rparr>) r))))"
      by (intro steps_bind[OF stepwise_aside] steps_ovh_post steps_ret[OF stepwise_aside])
    from steps_after[OF stepwise_aside this 0]
    show "aside s (snd (bind (ovh_post (api_bulk env) (''/cloud/project/'' @ project_id s @ ''/instance/bulk'')
               \<lparr>post_serviceName = project_id s, post_flavorId = flavor_id,
                post_imageId = image_id, post_name = nm, post_region = region,
                post_sshKeyId = ssh_key_id, post_monthlyBilling = False, post_number = num\<rparr>)
         (\<lambda>r. ret (Inr (map (\<lambda>i. \<lparr>inst_id = i, inst_ip = None\<rparr>) r))) ?s0))" .
  qed
qed

lemma steps_cleanup_instance: "steps aside (cleanup_instance env instance_id)"
  unfolding steps_def
proof
  fix s
  let ?s0 = "log_msg Debug ''Removing instance {}'' [Str instance_id] s"
  have 0: "aside s ?s0" by (simp add: aside_log cleanup_log_def)
  from steps_after[OF stepwise_aside steps_ovh_delete 0]
  show "aside s (snd (cleanup_instance env instance_id s))"
    by (simp add: cleanup_instance_def)
qed

lemma extends_log: "Log lv fmt xs \<noteq> cleanup_log \<Longrightarrow> extends s (log_msg lv fmt xs s)"
  by (rule aside_extends) (rule aside_log)

lemma extends_emitI: "extends s t \<Longrightarrow> ev \<noteq> cleanup_log \<Longrightarrow> extends s (emit ev t)"
  by (auto simp: extends_def emit_def)

lemma extends_logI:
  "extends s t \<Longrightarrow> Log lv fmt xs \<noteq> cleanup_log \<Longrightarrow> extends s (log_msg lv fmt xs t)"
  by (simp add: log_msg_def extends_emitI)

lemma steps_bindI:
  assumes "stepwise R" and "steps R m" and "\<And>x s1. R s1 (snd (f x s1))"
  shows "R s (snd (bind m f s))"
proof -
  have "steps R (bind m f)"
    using assms(3) by (intro steps_bind[OF assms(1,2)]) (simp add: steps_def)
  then show ?thesis by (simp add: steps_def)
qed

lemma steps_recover_instance_error:
  "steps extends (recover_instance_error env instance_id nm region flavor img ssh_key)"
  unfolding steps_def
proof
  fix s :: state
  let ?s0 = "log_msg Info ''Encountered OVH Cloud ERROR - trying to replace failed instance'' [] s"
  have 0: "extends s ?s0" by (simp add: extends_log cleanup_log_def)
  show "extends s (snd (recover_instance_error env instance_id nm region flavor img ssh_key s))"
  proof (cases "first_index instance_id (instances ?s0)")
    case None
    with 0 show ?thesis by (simp add: recover_instance_error_def)
  next
    case (Some i)
    let ?s1 = "?s0\<lparr>instances := del_at i (instances ?s0)\<rparr>"
    have 1: "extends s ?s1" using 0 by simp
    have "steps extends (bind (cleanup_instance env instance_id) (\<lambda>_.
             bind (create_instance env nm region flavor img ssh_key 1) (\<lambda>new s'.
               (Inr (), s'\<lparr>instances := instances s' @ new\<rparr>))))"
      apply (rule steps_bind[OF stepwise_extends steps_aside_extends[OF steps_cleanup_instance]])
      apply (rule steps_bind[OF stepwise_extends steps_aside_extends[OF steps_create_instance]])
      apply (simp add: steps_def extends_refl)
      done
    from steps_after[OF stepwise_extends this 1] Some
    show ?thesis by (simp add: recover_instance_error_def Let_def)
  qed
qed

lemma recover_then_break:
  "extends s1 (snd (bind (recover_instance_error env iid nm region flavor img ssh_key)
                      (\<lambda>_. ret (Inr (Break True))) (log_msg Error fmt xs s1)))"
proof -
  have "steps extends (bind (recover_instance_error env iid nm region flavor img ssh_key)
                      (\<lambda>_. ret (Inr (Break True))))"
    by (intro steps_bind[OF stepwise_extends] steps_recover_instance_error
        steps_ret[OF stepwise_extends])
  from steps_after[OF stepwise_extends this, of s1 "log_msg Error fmt xs s1"]
  show ?thesis by (simp add: extends_log cleanup_log_def)
qed

lemma steps_poll_one: "steps extends (poll_one env a i wait)"
  unfolding steps_def
proof
  fix s :: state
  show "extends s (snd (poll_one env a i wait s))"
  proof (cases "inst_ip (instances s ! i)")
    case (Some ip)
    then show ?thesis by (simp add: poll_one_def extends_refl)
  next
    case None
    then show ?thesis
      apply (simp add: poll_one_def Let_def)
      apply (rule steps_bindI[OF stepwise_extends steps_aside_extends[OF steps_ovh_get]])
      apply (auto intro!: extends_logI extends_emitI
          simp: recover_then_break extends_refl cleanup_log_def Let_def split: list.splits)
      done
  qed
qed

lemma steps_poll_pass: "steps extends (poll_pass env a i wait)"
  unfolding steps_def
proof
  fix s :: state
  show "extends s (snd (poll_pass env a i wait s))"
  proof (induction env a i wait s rule: poll_pass.induct)
    case (1 env a i wait s)
    show ?case
    proof (cases "i < length (instances s)")
      case False
      then show ?thesis by (subst poll_pass.simps) (simp add: extends_refl)
    next
      case True
      obtain r s' where p: "poll_one env a i wait s = (r, s')" by (cases "poll_one env a i wait s")
      from stepsD[OF steps_poll_one p] have e: "extends s s'" .
      show ?thesis
      proof (cases r)
        case (Inl err)
        with True p e show ?thesis by (subst poll_pass.simps) simp
      next
        case (Inr c)
        show ?thesis
        proof (cases c)
          case (Break w)
          with True p e Inr show ?thesis by (subst poll_pass.simps) simp
        next
          case (Next w)
          from "1.IH"[OF True p[symmetric] Inr Next]
          have "extends s' (snd (poll_pass env a (Suc i) w s'))" .
          from extends_trans[OF e this] True p Inr Next
          show ?thesis by (subst poll_pass.simps) simp
        qed
      qed
    qed
  qed
qed

lemma steps_poll_loop: "steps extends (poll_loop n env a)"
  unfolding steps_def
proof
  fix s :: state
  show "extends s (snd (poll_loop n env a s))"
  proof (induction n arbitrary: s)
    case 0
    show ?case by (simp add: extends_refl)
  next
    case (Suc n)
    have 0: "extends s (sleep 5 s)" by (rule aside_extends) (rule aside_sleep)
    obtain r s' where p: "poll_pass env a 0 False (sleep 5 s) = (r, s')"
      by (cases "poll_pass env a 0 False (sleep 5 s)")
    from extends_trans[OF 0 stepsD[OF steps_poll_pass p]] have e: "extends s s'" .
    show ?case
    proof (cases r)
      case (Inl err)
      with p e show ?thesis by simp
    next
      case (Inr w)
      with p e extends_trans[OF e Suc.IH[of s']] show ?thesis by simp
    qed
  qed
qed

lemma steps_create_instances: "steps extends (create_instances n env a)"
  unfolding steps_def
proof
  fix s :: state
  let ?s0 = "log_msg Info ''Sending instance creation requests'' [] s"
  have 0: "extends s ?s0" by (simp add: extends_log cleanup_log_def)
  obtain r s1 where c: "create_instance env (arg_name a) (arg_region a) (arg_flavor a)
      (arg_image a) (arg_ssh_key a) (arg_masters a + arg_agents a) ?s0 = (r, s1)"
    by (cases "create_instance env (arg_name a) (arg_region a) (arg_flavor a)
      (arg_image a) (arg_ssh_key a) (arg_masters a + arg_agents a) ?s0")
  from extends_trans[OF 0 aside_extends[OF stepsD[OF steps_create_instance c]]]
  have 1: "extends s s1" .
  show "extends s (snd (create_instances n env a s))"
  proof (cases r)
    case (Inl e)
    with c 1 show ?thesis by (simp add: create_instances_def)
  next
    case (Inr new)
    let ?s2 = "s1\<lparr>instances := instances s1 @ new\<rparr>"
    let ?s3 = "log_msg Info ''Sent request to OVH Cloud API to create {} instances''
                  [Num (int (length (instances ?s2)))] ?s2"
    have "extends s ?s3"
      using 1 by (auto simp: log_msg_def emit_def extends_def cleanup_log_def)
    from steps_after[OF stepwise_extends steps_poll_loop this] c Inr
    show ?thesis by (simp add: create_instances_def Let_def)
  qed
qed

section \<open>Installation phases and the handler at exit\<close>

lemma commands_append: "commands (xs @ ys) = commands xs @ commands ys"
  by (induction xs rule: commands.induct) simp_all

lemma commands_phase_events: "commands (phase_events flag rc) = [(phase_cmd flag, rc)]"
  by (simp add: phase_events_def)

lemma run_phase_eq:
  "run_phase env flag s =
     (let rc = os_returncode env (trace s) (phase_cmd flag)
      in (if rc \<noteq> 0 then Inl (ValueError (phase_cmd flag) rc) else Inr (),
          s\<lparr>trace := trace s @ phase_events flag rc\<rparr>))"
  by (simp add: run_phase_def bind_def ret_def stream_cmd_def Let_def phase_events_def
      log_msg_def emit_def)

lemma for_each_run_phase:
  "\<exists>k rc. k \<le> length fs \<and> (k < length fs \<longrightarrow> rc \<noteq> 0)
     \<and> for_each (run_phase env) fs s
         = (if k < length fs then Inl (ValueError (phase_cmd (fs ! k)) rc) else Inr (),
            s\<lparr>trace := trace s @ concat (map (\<lambda>f. phase_events f 0) (take k fs))
                 @ (if k < length fs then phase_events (fs ! k) rc else [])\<rparr>)"
proof (induction fs arbitrary: s)
  case Nil
  show ?case by (intro exI[of _ 0]) simp
next
  case (Cons f fs)
  let ?rc = "os_returncode env (trace s) (phase_cmd f)"
  show ?case
  proof (cases "?rc = 0")
    case False
    then have rp: "run_phase env f s
        = (Inl (ValueError (phase_cmd f) ?rc), s\<lparr>trace := trace s @ phase_events f ?rc\<rparr>)"
      by (simp add: run_phase_eq Let_def)
    from False show ?thesis
      by (intro exI[of _ 0] exI[of _ ?rc]) (simp add: rp)
  next
    case True
    let ?s1 = "s\<lparr>trace := trace s @ phase_events f 0\<rparr>"
    from True have rp: "run_phase env f s = (Inr (), ?s1)"
      by (simp add: run_phase_eq Let_def)
    from Cons.IH[of ?s1] obtain k rc where k: "k \<le> length fs" "k < length fs \<longrightarrow> rc \<noteq> 0"
      and f: "for_each (run_phase env) fs ?s1
         = (if k < length fs then Inl (ValueError (phase_cmd (fs ! k)) rc) else Inr (),
            ?s1\<lparr>trace := trace ?s1 @ concat (map (\<lambda>f. phase_events f 0) (take k fs))
                 @ (if k < length fs then phase_events (fs ! k) rc else [])\<rparr>)"
      by blast
    from k f show ?thesis
      by (intro exI[of _ "Suc k"] exI[of _ rc]) (simp add: rp)
  qed
qed

lemma commands_fold_log:
  "commands (trace (fold (\<lambda>x. log_msg lv fmt (g x)) xs s)) = commands (trace s)"
  by (induction xs arbitrary: s) (simp_all add: log_msg_def emit_def commands_append)

lemma report_commands: "commands (trace (snd (report a s))) = commands (trace s)"
  by (simp add: report_def Let_def commands_fold_log log_msg_def emit_def commands_append
      split: option.splits)

lemma report_result: "fst (report a s) \<noteq> Inl (SystemExit 1)"
  by (simp add: report_def Let_def split: option.splits)

lemma aside_report: "aside s (snd (report a s))"
proof -
  let ?s1 = "log_msg Info ''DC/OS is available at the following master endpoints:'' [] s"
  have 1: "aside s ?s1" by (simp add: aside_log cleanup_log_def)
  show ?thesis
  proof (cases "config s")
    case None
    with 1 show ?thesis by (simp add: report_def Let_def log_msg_def emit_def)
  next
    case (Some cfg)
    let ?s2 = "fold (\<lambda>master. log_msg Info
                 ([CHR 0x09] @ ''https://{master}/'' @ [CHR 0x09] @ ''ssh://{user}@'' @ ''{master}'')
                 [Str master, Str (arg_ssh_user a)]) (master_list cfg) ?s1"
    let ?s3 = "log_msg Info ''The following agents have been installed:'' [] ?s2"
    let ?s4 = "fold (\<lambda>agent. log_msg Info ([CHR 0x09] @ ''ssh://{}@'' @ ''{}'')
                                [Str (arg_ssh_user a), Str agent]) (agent_list cfg) ?s3"
    let ?s5 = "log_msg Warn
                 ''WARNING - All host firewalls are OPEN! Service ports are publicly available!''
                 [] ?s4"
    have 2: "aside ?s1 ?s2"
      by (rule steps_fold[OF stepwise_aside]) (simp add: aside_log cleanup_log_def)
    have 3: "aside ?s2 ?s3" by (simp add: aside_log cleanup_log_def)
    have 4: "aside ?s3 ?s4"
      by (rule steps_fold[OF stepwise_aside]) (simp add: aside_log cleanup_log_def)
    have 5: "aside ?s4 ?s5" by (simp add: aside_log cleanup_log_def)
    have c: "config ?s1 = Some cfg" using Some by (simp add: log_msg_def emit_def)
    have "snd (report a s) = ?s5"
      using c by (simp add: report_def Let_def)
    with aside_trans[OF aside_trans[OF aside_trans[OF aside_trans[OF 1 2] 3] 4] 5]
    show ?thesis by simp
  qed
qed

lemma report_trace: "\<exists>evs. trace (snd (report a s)) = trace s @ evs"
  using aside_report[of s a] by (auto simp: aside_def extends_def)

lemma new_events_append: "trace s' = trace s @ evs \<Longrightarrow> new_events s s' = evs"
  by (simp add: new_events_def)

lemma install_shape:
  "\<exists>k rc. k \<le> length phases
      \<and> commands (new_events s (snd (install env a s)))
          = map (\<lambda>flag. (phase_cmd flag, 0)) (take k phases)
            @ (if k < length phases then [(phase_cmd (phases ! k), rc)] else [])
      \<and> (k < length phases \<longrightarrow> rc \<noteq> 0)
      \<and> (fst (install env a s) = Inl (SystemExit 1)) = (k < length phases)"
proof -
  let ?s0 = "log_msg Info ''Running the DC/OS installer'' [] s"
  from for_each_run_phase[of phases env ?s0]
  obtain k rc where k: "k \<le> length phases" "k < length phases \<longrightarrow> rc \<noteq> 0"
    and f: "for_each (run_phase env) phases ?s0
         = (if k < length phases then Inl (ValueError (phase_cmd (phases ! k)) rc) else Inr (),
            ?s0\<lparr>trace := trace ?s0 @ concat (map (\<lambda>f. phase_events f 0) (take k phases))
                 @ (if k < length phases then phase_events (phases ! k) rc else [])\<rparr>)"
    by blast
  let ?s1 = "?s0\<lparr>trace := trace ?s0 @ concat (map (\<lambda>f. phase_events f 0) (take k phases))
                 @ (if k < length phases then phase_events (phases ! k) rc else [])\<rparr>"
  have c1: "commands (concat (map (\<lambda>f. phase_events f 0) fs)) = map (\<lambda>flag. (phase_cmd flag, 0)) fs"
    for fs
    by (induction fs) (simp_all add: commands_append commands_phase_events)
  have cs1: "commands (trace ?s1) = commands (trace s)
               @ map (\<lambda>flag. (phase_cmd flag, 0)) (take k phases)
               @ (if k < length phases then [(phase_cmd (phases ! k), rc)] else [])"
    by (simp add: commands_append c1 commands_phase_events log_msg_def emit_def)
  show ?thesis
  proof (cases "k < length phases")
    case True
    have "snd (install env a s)
            = log_msg Critical ''An error occurred while installing DC/OS - aborting'' [] ?s1"
      and r: "fst (install env a s) = Inl (SystemExit 1)"
      using True f by (simp_all add: install_def)
    then have t: "trace (snd (install env a s)) = trace s
        @ (Log Info ''Running the DC/OS installer'' []
           # concat (map (\<lambda>f. phase_events f 0) (take k phases)) @ phase_events (phases ! k) rc
           @ [Log Critical ''An error occurred while installing DC/OS - aborting'' []])"
      using True by (simp add: log_msg_def emit_def)
    have "commands (new_events s (snd (install env a s)))
            = map (\<lambda>flag. (phase_cmd flag, 0)) (take k phases) @ [(phase_cmd (phases ! k), rc)]"
      unfolding new_events_append[OF t]
      by (simp add: commands_append c1 commands_phase_events)
    with True k r show ?thesis
      by (intro exI[of _ k] exI[of _ rc]) simp
  next
    case False
    then have i: "install env a s = report a ?s1"
      using f by (simp add: install_def)
    from report_trace[of a ?s1] obtain evs where e: "trace (snd (report a ?s1)) = trace ?s1 @ evs"
      by blast
    from report_commands[of a ?s1] e have ce: "commands evs = []"
      by (simp add: commands_append)
    have t: "trace (snd (install env a s)) = trace s
        @ (Log Info ''Running the DC/OS installer'' []
           # concat (map (\<lambda>f. phase_events f 0) (take k phases)) @ evs)"
      using False e by (simp add: i log_msg_def emit_def)
    have "commands (new_events s (snd (install env a s)))
            = map (\<lambda>flag. (phase_cmd flag, 0)) (take k phases)"
      unfolding new_events_append[OF t]
      by (simp add: commands_append c1 ce)
    with False k report_result[of a ?s1] show ?thesis
      by (intro exI[of _ k] exI[of _ rc]) (simp add: i)
  qed
qed

lemma steps_stream_cmd: "steps aside (stream_cmd env cmd)"
  by (auto simp: steps_def stream_cmd_def Let_def log_msg_def emit_def aside_def extends_def
      cleanup_log_def)

lemma steps_run_phase: "steps aside (run_phase env flag)"
  unfolding run_phase_def
  by (intro steps_bind[OF stepwise_aside] steps_stream_cmd steps_ret[OF stepwise_aside])

lemma attempt_events_quiet: "cleanup_log \<notin> set (attempt_events host cmd retries rcs ok)"
  by (induction rcs arbitrary: retries) (simp_all add: cleanup_log_def)

lemma host_events_quiet: "cleanup_log \<notin> set (host_events user host outcome)"
  using attempt_events_quiet[of host "ssh_cmd user host" 3 "fst outcome" "snd outcome"]
  by (simp add: host_events_def) (simp add: cleanup_log_def)

lemma steps_prep_host: "steps aside (prep_host env a i)"
  unfolding steps_def
proof
  fix s :: state
  show "aside s (snd (prep_host env a i s))"
  proof (cases "inst_ip i")
    case None
    then show ?thesis by (simp add: prep_host_def aside_refl)
  next
    case (Some host)
    then have i: "i = \<lparr>inst_id = inst_id i, inst_ip = Some host\<rparr>" by (cases i) simp
    from prep_host_shape[of env a "inst_id i" host s] i
    obtain outcome where "prep_host env a i s
        = (Inr (), s\<lparr>trace := trace s @ host_events (arg_ssh_user a) host outcome\<rparr>)"
      by metis
    then show ?thesis
      by (simp add: aside_def extends_def host_events_quiet)
  qed
qed

lemma steps_system_prep: "steps aside (system_prep env a)"
  unfolding steps_def
proof
  fix s :: state
  let ?s0 = "log_msg Info ''Preparing OVH systems for DC/OS installation'' [] s"
  have 0: "aside s ?s0" by (simp add: aside_log cleanup_log_def)
  from steps_after[OF stepwise_aside steps_for_each[OF stepwise_aside steps_prep_host] 0]
  show "aside s (snd (system_prep env a s))"
    by (simp add: system_prep_def Let_def)
qed

lemma steps_install: "steps aside (install env a)"
  unfolding steps_def
proof
  fix s :: state
  let ?s0 = "log_msg Info ''Running the DC/OS installer'' [] s"
  have 0: "aside s ?s0" by (simp add: aside_log cleanup_log_def)
  obtain r s1 where f: "for_each (run_phase env) phases ?s0 = (r, s1)"
    by (cases "for_each (run_phase env) phases ?s0")
  from aside_trans[OF 0 stepsD[OF steps_for_each[OF stepwise_aside steps_run_phase] f]]
  have 1: "aside s s1" .
  show "aside s (snd (install env a s))"
  proof (cases r)
    case (Inr u)
    with f aside_trans[OF 1 aside_report[of s1 a]] show ?thesis by (simp add: install_def)
  next
    case (Inl e)
    have "aside s (log_msg Critical ''An error occurred while installing DC/OS - aborting'' [] s1)"
      by (rule aside_trans[OF 1]) (simp add: aside_log cleanup_log_def)
    with f Inl 1 show ?thesis by (cases e) (simp_all add: install_def)
  qed
qed

lemma steps_write_config: "steps aside (write_config a)"
  by (auto simp: steps_def write_config_def Let_def aside_refl aside_def extends_def emit_def
      cleanup_log_def split: sum.splits)

lemma steps_download: "steps aside (download env a)"
  by (auto simp: steps_def download_def Let_def aside_def extends_def emit_def log_msg_def
      cleanup_log_def split: option.splits)

lemma steps_deploy: "steps extends (deploy n env a)"
  unfolding steps_def
proof
  fix s :: state
  obtain r1 s1 where d: "download env a s = (r1, s1)" by (cases "download env a s")
  from aside_extends[OF stepsD[OF steps_download d]] have 1: "extends s s1" .
  show "extends s (snd (deploy n env a s))"
  proof (cases r1)
    case (Inl e)
    with d 1 show ?thesis by (simp add: deploy_def)
  next
    case (Inr u)
    obtain r2 s2 where c: "create_instances n env a s1 = (r2, s2)"
      by (cases "create_instances n env a s1")
    from extends_trans[OF 1 stepsD[OF steps_create_instances c]] have 2: "extends s s2" .
    have rest: "steps extends (bind (write_config a) (\<lambda>_. bind (system_prep env a) (\<lambda>_. install env a)))"
      by (intro steps_aside_extends steps_bind[OF stepwise_aside] steps_write_config
          steps_system_prep steps_install)
    from steps_after[OF stepwise_extends rest 2]
    have 3: "extends s (snd (bind (write_config a)
                 (\<lambda>_. bind (system_prep env a) (\<lambda>_. install env a)) s2))" .
    from d Inr c 2 3 show ?thesis
      by (auto simp: deploy_def split: option.splits sum.splits prod.splits)
  qed
qed

lemma steps_add_project: "steps aside (add_project env serviceName)"
  unfolding add_project_def
  by (rule steps_bind[OF stepwise_aside steps_ovh_get])
     (simp add: steps_def Let_def aside_log cleanup_log_def)

lemma steps_projects: "steps aside (projects env)"
  unfolding steps_def
proof
  fix s :: state
  let ?s0 = "log_msg Debug ''Fetching projects from OVH API'' [] s"
  have 0: "aside s ?s0" by (simp add: aside_log cleanup_log_def)
  have "steps aside (bind (ovh_get (api_project_list env) ''/cloud/project'')
          (\<lambda>names. bind (for_each (add_project env) names)
             (\<lambda>_ s'. (Inr (priv_projects s'), s'))))"
    apply (rule steps_bind[OF stepwise_aside steps_ovh_get])
    apply (rule steps_bind[OF stepwise_aside steps_for_each[OF stepwise_aside steps_add_project]])
    apply (simp add: steps_def aside_refl)
    done
  from steps_after[OF stepwise_aside this 0]
  show "aside s (snd (projects env s))"
    by (simp add: projects_def aside_refl)
qed

lemma init_OVHInstances_registers:
  "extends (s\<lparr>atexit_handlers := atexit_handlers s @ [Cleanup]\<rparr>) (snd (init_OVHInstances env a s))"
proof -
  let ?s0 = "s\<lparr>atexit_handlers := atexit_handlers s @ [Cleanup], instances := [],
          priv_projects := [], priv_flavors := [], priv_images := [], priv_ssh_keys := []\<rparr>"
  have 0: "extends (s\<lparr>atexit_handlers := atexit_handlers s @ [Cleanup]\<rparr>) ?s0"
    by (simp add: extends_def)
  have "steps extends (bind (projects env) (\<lambda>ps.
     bind (ret (getitem ps (arg_project a))) (\<lambda>project s'.
       (Inr (), s'\<lparr>project_id := project_project_id project\<rparr>))))"
    apply (rule steps_bind[OF stepwise_extends steps_aside_extends[OF steps_projects]])
    apply (rule steps_bind[OF stepwise_extends steps_ret[OF stepwise_extends]])
    apply (simp add: steps_def extends_refl)
    done
  from steps_after[OF stepwise_extends this 0]
  show ?thesis by (simp add: init_OVHInstances_def)
qed

lemma main_registers_once:
  "extends (s\<lparr>atexit_handlers := atexit_handlers s @ [Cleanup]\<rparr>) (snd (main n env a s))"
proof -
  let ?r = "s\<lparr>atexit_handlers := atexit_handlers s @ [Cleanup]\<rparr>"
  obtain r1 s1 where i: "init_OVHInstances env a s = (r1, s1)"
    by (cases "init_OVHInstances env a s")
  from init_OVHInstances_registers[of s env a] i have 1: "extends ?r s1" by simp
  show ?thesis
  proof (cases r1)
    case (Inl e)
    with i 1 show ?thesis by (simp add: main_def)
  next
    case (Inr u)
    obtain r2 s2 where d: "deploy n env a s1 = (r2, s2)" by (cases "deploy n env a s1")
    from extends_trans[OF 1 stepsD[OF steps_deploy d]] have 2: "extends ?r s2" .
    have 3: "extends ?r (emit (Input ''Press Enter to DESTROY all instances...'') s2)"
      by (rule extends_emitI[OF 2]) (simp add: cleanup_log_def)
    from i Inr d 2 3 show ?thesis
      by (auto simp: main_def split: option.splits sum.splits)
  qed
qed

lemma cleanup_once:
  "\<exists>evs. trace (snd (cleanup env s)) = trace s @ cleanup_log # evs \<and> cleanup_log \<notin> set evs"
proof -
  let ?s1 = "log_msg Info ''Cleaning up instances'' [] s"
  have "steps aside (for_each (\<lambda>i. cleanup_instance env (inst_id i)) (instances ?s1))"
    by (rule steps_for_each[OF stepwise_aside steps_cleanup_instance])
  then have "aside ?s1 (snd (cleanup env s))"
    by (simp add: steps_def cleanup_def Let_def)
  then show ?thesis
    by (auto simp: aside_def extends_def log_msg_def emit_def cleanup_log_def)
qed

lemma process_cleanup_once:
  assumes "process n env a = (Some e, s')"
  shows "count_list (trace s') cleanup_log = 1"
proof -
  obtain r sF where m: "main n env a fresh = (r, sF)" by (cases "main n env a fresh")
  from main_registers_once[of fresh n env a] m
  have h: "atexit_handlers sF = [Cleanup]" and q: "cleanup_log \<notin> set (trace sF)"
    by (auto simp: extends_def fresh_def)
  from assms m have r: "r = Some e" and s': "s' = run_handlers env (rev (atexit_handlers sF)) sF"
    by (auto simp: process_def split: option.splits)
  from cleanup_once[of env sF] obtain evs
    where t: "trace (snd (cleanup env sF)) = trace sF @ cleanup_log # evs"
      and e: "cleanup_log \<notin> set evs" by blast
  have "trace s' = trace sF @ cleanup_log # evs"
    using s' h t by simp
  with q e show ?thesis
    by (simp add: count_list_0_iff)
qed

text \<open>
  C5. Whatever the commands return, \<open>install\<close> runs the phases in their order, each at
  most once, and stops at the first one that fails: the commands it has run are the first
  \<open>k\<close> phases, all successful, followed when \<open>k < 5\<close> by phase \<open>k\<close> with a return code
  other than 0, and it ends with \<open>sys.exit(1)\<close> exactly in that case. Every process that
  has come to its end, for whatever reason, has run \<open>cleanup\<close> exactly once.
\<close>

theorem install_stops_at_first_failure:
  "(\<exists>k rc. k \<le> length phases
      \<and> commands (new_events s (snd (install env a s)))
          = map (\<lambda>flag. (phase_cmd flag, 0)) (take k phases)
            @ (if k < length phases then [(phase_cmd (phases ! k), rc)] else [])
      \<and> (k < length phases \<longrightarrow> rc \<noteq> 0)
      \<and> (fst (install env a s) = Inl (SystemExit 1)) = (k < length phases))
   \<and> (\<forall>e s'. process n env a = (Some e, s') \<longrightarrow> count_list (trace s') cleanup_log = 1)"
  using install_shape[of s env a] process_cleanup_once[of n env a] by blast

text \<open>
  A run with one master and one agent in which \<open>--preflight\<close> returns 1: \<open>--deploy\<close> and
  \<open>--postflight\<close> are not run, the process ends with status 1, and \<open>cleanup\<close> has run
  once.
\<close>

lemma run_preflight_fails_status:
  "fst (process 1 (cloud active deleted preflight_fails) (default_args 1 1)) = Some (SystemExit 1)"
  by code_simp

lemma run_preflight_fails_commands:
  "commands (trace (snd (process 1 (cloud active deleted preflight_fails) (default_args 1 1))))
     = [(ssh_cmd ''centos'' ''ip-of-vmi'', 0), (ssh_cmd ''centos'' ''ip-of-vmii'', 0),
        (phase_cmd ''--genconf'', 0), (phase_cmd ''--install-prereqs'', 0),
        (phase_cmd ''--preflight'', 1)]"
  by code_simp

lemma run_preflight_fails_cleanup:
  "count_list (trace (snd (process 1 (cloud active deleted preflight_fails) (default_args 1 1))))
     cleanup_log = 1"
  by code_simp

theorem install_stops_at_first_failure_witness:
  "fst (process 1 (cloud active deleted preflight_fails) (default_args 1 1)) = Some (SystemExit 1)
   \<and> commands (trace (snd (process 1 (cloud active deleted preflight_fails) (default_args 1 1))))
       = [(ssh_cmd ''centos'' ''ip-of-vmi'', 0), (ssh_cmd ''centos'' ''ip-of-vmii'', 0),
          (phase_cmd ''--genconf'', 0), (phase_cmd ''--install-prereqs'', 0),
          (phase_cmd ''--preflight'', 1)]
   \<and> count_list (trace (snd (process 1 (cloud active deleted preflight_fails) (default_args 1 1))))
        cleanup_log = 1"
  using install_stops_at_first_failure[of fresh "cloud active deleted preflight_fails"
      "default_args 1 1" 1]
    run_preflight_fails_status run_preflight_fails_commands run_preflight_fails_cleanup
  by blast

section \<open>Instance provisioner: recovery and the size of the working set\<close>

lemma first_index_Some:
  "first_index iid xs = Some j \<Longrightarrow> j < length xs \<and> inst_id (xs ! j) = iid"
  by (induction xs arbitrary: j) (auto split: if_splits)

lemma first_index_member:
  "i < length xs \<Longrightarrow> \<exists>j. first_index (inst_id (xs ! i)) xs = Some j"
proof (induction xs arbitrary: i)
  case Nil
  then show ?case by simp
next
  case (Cons x xs)
  then show ?case by (cases i) auto
qed

lemma length_del_at: "j < length xs \<Longrightarrow> length (del_at j xs) = length xs - 1"
  by (simp add: del_at_def)

lemma first_index_distinct:
  "first_index iid xs = Some j \<Longrightarrow> distinct (map inst_id xs)
     \<Longrightarrow> iid \<notin> set (map inst_id (del_at j xs))"
proof (induction xs arbitrary: j)
  case Nil
  then show ?case by simp
next
  case (Cons x xs)
  show ?case
  proof (cases "inst_id x = iid")
    case True
    with Cons.prems show ?thesis by (auto simp: del_at_def)
  next
    case False
    with Cons.prems obtain k where k: "first_index iid xs = Some k" "j = Suc k"
      by auto
    from Cons.IH[OF k(1)] Cons.prems(2) have "iid \<notin> set (map inst_id (del_at k xs))" by simp
    with False k show ?thesis by (simp add: del_at_def)
  qed
qed

lemma recover_eq:
  assumes "first_index iid (instances s) = Some i"
  shows "recover_instance_error env iid nm region flavor img ssh_key s =
           bind (cleanup_instance env iid) (\<lambda>_.
             bind (create_instance env nm region flavor img ssh_key 1) (\<lambda>new s'.
               (Inr (), s'\<lparr>instances := instances s' @ new\<rparr>))) (recovering i s)"
  using assms
  by (simp add: recover_instance_error_def recovering_def Let_def log_msg_def emit_def)

lemma create_instance_answer:
  assumes "create_instance env nm region flavor img ssh_key num s = (Inr new, s')"
  shows "\<exists>h p b ids. api_bulk env h p b = Inr ids \<and> post_number b = num
           \<and> new = map (\<lambda>i. \<lparr>inst_id = i, inst_ip = None\<rparr>) ids"
  using assms
  apply (auto simp: create_instance_def bind_def ret_def ovh_post_def super_post_def
      split: prod.splits sum.splits)
  apply (rule exI, rule exI, rule exI, rule exI, intro conjI, assumption)
   apply simp_all
  done

lemma aside_instances: "aside s s' \<Longrightarrow> instances s' = instances s"
  by (simp add: aside_def)

lemma recovering_instances: "instances (recovering i s) = del_at i (instances s)"
  by (simp add: recovering_def)

lemma cleanup_instance_raises:
  assumes "cleanup_instance env iid s = (Inl e, s2)"
  shows "\<exists>errs. length errs = 3 \<and> e = APIError (last errs)
           \<and> s2 = s\<lparr>trace := trace s @ Log Debug ''Removing instance {}'' [Str iid]
                    # map (\<lambda>x. HttpDelete (''/cloud/project/'' @ project_id s
                                              @ ''/instance/'' @ iid) (Some x)) errs\<rparr>"
proof -
  let ?s0 = "log_msg Debug ''Removing instance {}'' [Str iid] s"
  let ?p = "''/cloud/project/'' @ project_id s @ ''/instance/'' @ iid"
  from assms have d: "ovh_delete (api_delete env) ?p ?s0 = (Inl e, s2)"
    by (simp add: cleanup_instance_def)
  from ovh_delete_attempts[of "api_delete env" ?p ?s0] d
  obtain errs where "s2 = ?s0\<lparr>trace := trace ?s0 @ attempts (HttpDelete ?p) errs (Inl e :: error + unit)\<rparr>"
    and "length errs = 3" and "e = APIError (last errs)"
    by auto
  then show ?thesis
    by (intro exI[of _ errs]) (simp add: attempts_def log_msg_def emit_def)
qed

lemma recover_cases:
  assumes fi: "first_index iid (instances s) = Some i"
  shows "case recover_instance_error env iid nm region flavor img ssh_key s of
            (Inr _, s') \<Rightarrow>
              (\<exists>h p b ids. api_bulk env h p b = Inr ids \<and> post_number b = 1
                 \<and> instances s' = del_at i (instances s)
                                   @ map (\<lambda>x. \<lparr>inst_id = x, inst_ip = None\<rparr>) ids)
          | (Inl e, s') \<Rightarrow> instances s' = del_at i (instances s)"
proof -
  let ?s1 = "recovering i s"
  obtain rc s2 where c: "cleanup_instance env iid ?s1 = (rc, s2)"
    by (cases "cleanup_instance env iid ?s1")
  from aside_instances[OF stepsD[OF steps_cleanup_instance c]]
  have i2: "instances s2 = del_at i (instances s)" by (simp add: recovering_instances)
  show ?thesis
  proof (cases rc)
    case (Inl e)
    with c i2 show ?thesis by (simp add: recover_eq[OF fi] bind_def)
  next
    case (Inr u)
    obtain r3 s3 where n: "create_instance env nm region flavor img ssh_key 1 s2 = (r3, s3)"
      by (cases "create_instance env nm region flavor img ssh_key 1 s2")
    from aside_instances[OF stepsD[OF steps_create_instance n]] i2
    have i3: "instances s3 = del_at i (instances s)" by simp
    show ?thesis
    proof (cases r3)
      case (Inl e)
      with c Inr n i3 show ?thesis by (simp add: recover_eq[OF fi] bind_def)
    next
      case new: (Inr new)
      from create_instance_answer[OF n[unfolded new]]
      obtain h p b ids where "api_bulk env h p b = Inr ids" "post_number b = 1"
        "new = map (\<lambda>i. \<lparr>inst_id = i, inst_ip = None\<rparr>) ids"
        by blast
      with c Inr n new i3 show ?thesis
        by (auto simp: recover_eq[OF fi] bind_def)
    qed
  qed
qed

text \<open>
  C3, as the code has it. Recovery of the entry at index \<open>i\<close>, the first with the id of the
  errored instance, removes the entry first. If the deletion then fails (three attempts of the
  gateway), recovery raises that error at once: nothing is logged after the last attempt,
  and no replacement is requested. If recovery returns, the working set is the old one
  without the entry, followed by the entries, without an address, for the ids that the
  provider answered to one creation request for one instance. If it raises, the working
  set is the old one without the entry. When the ids of the working set are distinct, no
  entry with the errored id is left.
\<close>

theorem recovery_replaces_errored:
  assumes "first_index iid (instances s) = Some i"
  shows "(\<forall>e s2. cleanup_instance env iid (recovering i s) = (Inl e, s2) \<longrightarrow>
            recover_instance_error env iid nm region flavor img ssh_key s = (Inl e, s2)
            \<and> (\<exists>errs. length errs = 3 \<and> e = APIError (last errs)
                 \<and> s2 = (recovering i s)\<lparr>trace := trace (recovering i s)
                      @ Log Debug ''Removing instance {}'' [Str iid]
                      # map (\<lambda>x. HttpDelete (''/cloud/project/'' @ project_id s
                                              @ ''/instance/'' @ iid) (Some x)) errs\<rparr>))
       \<and> (case recover_instance_error env iid nm region flavor img ssh_key s of
            (Inr _, s') \<Rightarrow>
              (\<exists>h p b ids. api_bulk env h p b = Inr ids \<and> post_number b = 1
                 \<and> instances s' = del_at i (instances s)
                                   @ map (\<lambda>x. \<lparr>inst_id = x, inst_ip = None\<rparr>) ids)
          | (Inl e, s') \<Rightarrow> instances s' = del_at i (instances s))
       \<and> (distinct (map inst_id (instances s))
            \<longrightarrow> iid \<notin> set (map inst_id (del_at i (instances s))))"
proof (intro conjI allI impI)
  fix e s2
  assume c: "cleanup_instance env iid (recovering i s) = (Inl e, s2)"
  then show "recover_instance_error env iid nm region flavor img ssh_key s = (Inl e, s2)"
    by (simp add: recover_eq[OF assms] bind_def)
  have "project_id (recovering i s) = project_id s"
    by (simp add: recovering_def log_msg_def emit_def)
  with cleanup_instance_raises[OF c]
  show "\<exists>errs. length errs = 3 \<and> e = APIError (last errs)
                 \<and> s2 = (recovering i s)\<lparr>trace := trace (recovering i s)
                      @ Log Debug ''Removing instance {}'' [Str iid]
                      # map (\<lambda>x. HttpDelete (''/cloud/project/'' @ project_id s
                                              @ ''/instance/'' @ iid) (Some x)) errs\<rparr>"
    by simp
next
  show "case recover_instance_error env iid nm region flavor img ssh_key s of
            (Inr _, s') \<Rightarrow>
              (\<exists>h p b ids. api_bulk env h p b = Inr ids \<and> post_number b = 1
                 \<and> instances s' = del_at i (instances s)
                                   @ map (\<lambda>x. \<lparr>inst_id = x, inst_ip = None\<rparr>) ids)
          | (Inl e, s') \<Rightarrow> instances s' = del_at i (instances s)"
    by (rule recover_cases[OF assms])
next
  assume "distinct (map inst_id (instances s))"
  with first_index_distinct[OF assms]
  show "iid \<notin> set (map inst_id (del_at i (instances s)))" by simp
qed

lemma recover_length:
  assumes honours: "\<And>h p b ids. api_bulk env h p b = Inr ids \<Longrightarrow> length ids = nat (post_number b)"
    and fi: "first_index iid (instances s) = Some i"
    and r: "recover_instance_error env iid nm region flavor img ssh_key s = (Inr u, s')"
  shows "length (instances s') = length (instances s)"
proof -
  from recover_cases[OF fi, of env nm region flavor img ssh_key] r
  obtain h p b ids where a: "api_bulk env h p b = Inr ids" "post_number b = 1"
    and i: "instances s' = del_at i (instances s) @ map (\<lambda>x. \<lparr>inst_id = x, inst_ip = None\<rparr>) ids"
    by auto
  from honours[OF a(1)] a(2) have "length ids = 1" by simp
  moreover from first_index_Some[OF fi] have "i < length (instances s)" by simp
  ultimately show ?thesis using i by (simp add: length_del_at)
qed

lemma recover_raises_length:
  assumes fi: "first_index iid (instances s) = Some i"
    and r: "recover_instance_error env iid nm region flavor img ssh_key s = (Inl e, s')"
  shows "length (instances s') = length (instances s) - 1"
proof -
  from recover_cases[OF fi, of env nm region flavor img ssh_key] r
  have "instances s' = del_at i (instances s)" by simp
  with first_index_Some[OF fi] show ?thesis by (simp add: length_del_at)
qed

lemma poll_one_Break:
  assumes "poll_one env a i wait s = (Inr (Break w), s')"
  shows "\<exists>s1 fmt xs u. instances s1 = instances s
           \<and> recover_instance_error env (inst_id (instances s ! i)) (arg_name a) (arg_region a)
                (arg_flavor a) (arg_image a) (arg_ssh_key a) (log_msg Error fmt xs s1) = (Inr u, s')"
proof (cases "inst_ip (instances s ! i)")
  case (Some ip)
  with assms show ?thesis by (simp add: poll_one_def)
next
  case None
  obtain r s1 where g: "ovh_get (api_instance env)
      (''/cloud/project/'' @ project_id s @ ''/instance/'' @ inst_id (instances s ! i)) s = (r, s1)"
    by (cases "ovh_get (api_instance env)
      (''/cloud/project/'' @ project_id s @ ''/instance/'' @ inst_id (instances s ! i)) s")
  from ovh_get_instances[OF g] have i1: "instances s1 = instances s" .
  from assms None g show ?thesis
    apply (auto simp: poll_one_def bind_def ret_def Let_def
        split: sum.splits if_splits list.splits prod.splits)
    apply (rule exI[of _ s1])
    apply (auto simp: i1)
    done
qed

lemma poll_one_length:
  assumes honours: "\<And>h p b ids. api_bulk env h p b = Inr ids \<Longrightarrow> length ids = nat (post_number b)"
    and i: "i < length (instances s)"
    and p: "poll_one env a i wait s = (Inr c, s')"
  shows "length (instances s') = length (instances s)"
proof (cases c)
  case (Next w)
  with p show ?thesis by (simp add: poll_one_Next)
next
  case (Break w)
  from poll_one_Break[OF p[unfolded Break]] obtain s1 fmt xs u
    where i1: "instances s1 = instances s"
      and r: "recover_instance_error env (inst_id (instances s ! i)) (arg_name a) (arg_region a)
                (arg_flavor a) (arg_image a) (arg_ssh_key a) (log_msg Error fmt xs s1) = (Inr u, s')"
    by blast
  have il: "instances (log_msg Error fmt xs s1) = instances s"
    using i1 by (simp add: log_msg_def emit_def)
  from first_index_member[OF i] obtain j
    where "first_index (inst_id (instances s ! i)) (instances (log_msg Error fmt xs s1)) = Some j"
    unfolding il by blast
  from recover_length[OF honours this r] il show ?thesis by simp
qed

lemma poll_pass_length:
  assumes honours: "\<And>h p b ids. api_bulk env h p b = Inr ids \<Longrightarrow> length ids = nat (post_number b)"
  shows "poll_pass env a i wait s = (Inr w, s') \<Longrightarrow> length (instances s') = length (instances s)"
  using honours
proof (induction env a i wait s arbitrary: w s' rule: poll_pass.induct)
  case (1 env a i wait s)
  note honours = "1.prems"(2)
  show ?case
  proof (cases "i < length (instances s)")
    case False
    with "1.prems"(1) show ?thesis by (subst (asm) poll_pass.simps) simp
  next
    case True
    obtain r s1 where p: "poll_one env a i wait s = (r, s1)" by (cases "poll_one env a i wait s")
    show ?thesis
    proof (cases r)
      case (Inl e)
      with True p "1.prems"(1) show ?thesis by (subst (asm) poll_pass.simps) simp
    next
      case (Inr c)
      from poll_one_length[OF honours True p[unfolded Inr]]
      have l1: "length (instances s1) = length (instances s)" .
      show ?thesis
      proof (cases c)
        case (Break b)
        with True p Inr "1.prems"(1) l1 show ?thesis by (subst (asm) poll_pass.simps) simp
      next
        case (Next b)
        from True p Inr Next "1.prems"(1)
        have "poll_pass env a (Suc i) b s1 = (Inr w, s')"
          by (subst (asm) poll_pass.simps) simp
        from "1.IH"[OF True p[symmetric] Inr Next this honours] l1
        show ?thesis by simp
      qed
    qed
  qed
qed

lemma poll_loop_length:
  assumes honours: "\<And>h p b ids. api_bulk env h p b = Inr ids \<Longrightarrow> length ids = nat (post_number b)"
  shows "fst (poll_loop n env a s) = None \<or> fst (poll_loop n env a s) = Some (Inr ())
     \<Longrightarrow> length (instances (snd (poll_loop n env a s))) = length (instances s)"
proof (induction n arbitrary: s)
  case 0
  show ?case by simp
next
  case (Suc n)
  obtain r s1 where p: "poll_pass env a 0 False (sleep 5 s) = (r, s1)"
    by (cases "poll_pass env a 0 False (sleep 5 s)")
  show ?case
  proof (cases r)
    case (Inl e)
    with p Suc.prems show ?thesis by simp
  next
    case (Inr w)
    from poll_pass_length[OF honours p[unfolded Inr]]
    have l1: "length (instances s1) = length (instances s)" by (simp add: sleep_def emit_def)
    show ?thesis
    proof (cases w)
      case False
      with p Inr l1 show ?thesis by simp
    next
      case True
      with p Inr Suc.prems
      have "fst (poll_loop n env a s1) = None \<or> fst (poll_loop n env a s1) = Some (Inr ())"
        by simp
      from Suc.IH[OF this] p Inr True l1 show ?thesis by simp
    qed
  qed
qed

lemma create_instances_length:
  assumes honours: "\<And>h p b ids. api_bulk env h p b = Inr ids \<Longrightarrow> length ids = nat (post_number b)"
    and empty: "instances s = []"
    and ok: "fst (create_instances n env a s) = None
             \<or> fst (create_instances n env a s) = Some (Inr ())"
  shows "int (length (instances (snd (create_instances n env a s))))
           = max 0 (arg_masters a + arg_agents a)"
proof -
  let ?s0 = "log_msg Info ''Sending instance creation requests'' [] s"
  obtain r s1 where c: "create_instance env (arg_name a) (arg_region a) (arg_flavor a)
      (arg_image a) (arg_ssh_key a) (arg_masters a + arg_agents a) ?s0 = (r, s1)"
    by (cases "create_instance env (arg_name a) (arg_region a) (arg_flavor a)
      (arg_image a) (arg_ssh_key a) (arg_masters a + arg_agents a) ?s0")
  from aside_instances[OF stepsD[OF steps_create_instance c]] empty
  have i1: "instances s1 = []" by (simp add: log_msg_def emit_def)
  show ?thesis
  proof (cases r)
    case (Inl e)
    with c ok show ?thesis by (simp add: create_instances_def)
  next
    case (Inr new)
    from create_instance_answer[OF c[unfolded Inr]] obtain h p b ids
      where "api_bulk env h p b = Inr ids" "post_number b = arg_masters a + arg_agents a"
        "new = map (\<lambda>i. \<lparr>inst_id = i, inst_ip = None\<rparr>) ids" by blast
    with honours[of h p b ids] have ln: "length new = nat (arg_masters a + arg_agents a)"
      by simp
    let ?s3 = "log_msg Info ''Sent request to OVH Cloud API to create {} instances''
                 [Num (int (length (instances (s1\<lparr>instances := instances s1 @ new\<rparr>))))]
                 (s1\<lparr>instances := instances s1 @ new\<rparr>)"
    have e: "create_instances n env a s = poll_loop n env a ?s3"
      using c Inr by (simp add: create_instances_def Let_def)
    have "length (instances ?s3) = nat (arg_masters a + arg_agents a)"
      using i1 ln by (simp add: log_msg_def emit_def)
    with poll_loop_length[OF honours, where n = n and a = a and s = ?s3] ok
    show ?thesis unfolding e by auto
  qed
qed

lemma length_fresh_ids: "length (fresh_ids p n) = n"
  by (induction n) simp_all

lemma cloud_honours:
  "api_bulk (cloud answer_status answer_delete returncode) h p b = Inr ids
     \<Longrightarrow> length ids = nat (post_number b)"
  by (auto simp: cloud_def length_fresh_ids)

text \<open>
  C1, as the code has it. With a provider that creates as many instances as it is asked
  for, and a request for \<open>N \<ge> 1\<close> instances on an empty working set: after the request
  and after any number of passes of the poll loop, as long as nothing has been raised, the
  working set has exactly \<open>N\<close> entries. A recovery that returns leaves the size as it
  was; a recovery that raises leaves one entry less.
\<close>

theorem working_set_size:
  assumes "\<And>h p b ids. api_bulk env h p b = Inr ids \<Longrightarrow> length ids = nat (post_number b)"
    and "1 \<le> arg_masters a + arg_agents a"
    and "instances s = []"
  shows "(fst (create_instances n env a s) = None \<or> fst (create_instances n env a s) = Some (Inr ())
           \<longrightarrow> int (length (instances (snd (create_instances n env a s))))
                 = arg_masters a + arg_agents a)
       \<and> (\<forall>t iid i u t'. first_index iid (instances t) = Some i
             \<longrightarrow> recover_instance_error env iid nm region flavor img ssh_key t = (Inr u, t')
             \<longrightarrow> length (instances t') = length (instances t))
       \<and> (\<forall>t iid i e t'. first_index iid (instances t) = Some i
             \<longrightarrow> recover_instance_error env iid nm region flavor img ssh_key t = (Inl e, t')
             \<longrightarrow> length (instances t') = length (instances t) - 1)"
proof (intro conjI allI impI)
  assume "fst (create_instances n env a s) = None \<or> fst (create_instances n env a s) = Some (Inr ())"
  from create_instances_length[OF assms(1) assms(3) this] assms(2)
  show "int (length (instances (snd (create_instances n env a s)))) = arg_masters a + arg_agents a"
    by simp
next
  fix t iid i u t'
  assume fi: "first_index iid (instances t) = Some i"
    and r: "recover_instance_error env iid nm region flavor img ssh_key t = (Inr u, t')"
  show "length (instances t') = length (instances t)"
    using assms(1) fi r by (rule recover_length)
next
  fix t iid i e t'
  assume "first_index iid (instances t) = Some i"
    and "recover_instance_error env iid nm region flavor img ssh_key t = (Inl e, t')"
  then show "length (instances t') = length (instances t) - 1"
    by (rule recover_raises_length)
qed

text \<open>
  A run for one master and one agent in which the first instance is in ERROR: it is
  replaced in the first pass, and the working set has two entries after the first pass and
  at the end.
\<close>

lemma run_replaced_result:
  "fst (create_instances 2 (cloud first_errored deleted all_ok) (default_args 1 1) started)
     = Some (Inr ())"
  by code_simp

lemma run_replaced_set:
  "instances (snd (create_instances 2 (cloud first_errored deleted all_ok) (default_args 1 1) started))
     = [ready ''vmii'' ''ip-of-vmii'', ready ''vmri'' ''ip-of-vmri'']"
  by code_simp

lemma run_replaced_between:
  "fst (create_instances 1 (cloud first_errored deleted all_ok) (default_args 1 1) started) = None
   \<and> map inst_id (instances (snd (create_instances 1 (cloud first_errored deleted all_ok)
        (default_args 1 1) started))) = [''vmii'', ''vmri'']"
  by code_simp

theorem working_set_size_witness:
  "1 \<le> arg_masters (default_args 1 1) + arg_agents (default_args 1 1)
   \<and> instances started = []
   \<and> fst (create_instances 2 (cloud first_errored deleted all_ok) (default_args 1 1) started)
       = Some (Inr ())
   \<and> instances (snd (create_instances 2 (cloud first_errored deleted all_ok) (default_args 1 1)
        started)) = [ready ''vmii'' ''ip-of-vmii'', ready ''vmri'' ''ip-of-vmri'']
   \<and> int (length (instances (snd (create_instances 2 (cloud first_errored deleted all_ok)
        (default_args 1 1) started)))) = 2
   \<and> fst (create_instances 1 (cloud first_errored deleted all_ok) (default_args 1 1) started) = None
   \<and> map inst_id (instances (snd (create_instances 1 (cloud first_errored deleted all_ok)
        (default_args 1 1) started))) = [''vmii'', ''vmri'']"
  using working_set_size[of "cloud first_errored deleted all_ok" "default_args 1 1" started 2,
      OF cloud_honours]
    run_replaced_result run_replaced_set run_replaced_between
  by (simp add: default_args_def started_def fresh_def)

text \<open>
  C1 as stated fails when the deletion of the errored instance fails: the process ends
  with one entry in a working set requested for two.
\<close>

theorem working_set_shrinks_counterexample:
  "arg_masters (default_args 1 1) + arg_agents (default_args 1 1) = 2
   \<and> fst (process 2 (cloud first_errored undeletable all_ok) (default_args 1 1))
       = Some (APIError NetworkError)
   \<and> instances (snd (process 2 (cloud first_errored undeletable all_ok) (default_args 1 1)))
       = [\<lparr>inst_id = ''vmii'', inst_ip = None\<rparr>]"
  by code_simp

lemma requested_first:
  "first_index ''vmi'' (instances (requested (cloud first_errored deleted all_ok))) = Some 0"
  by code_simp

lemma requested_recovered:
  "fst (recover_instance_error (cloud first_errored deleted all_ok) ''vmi'' ''Test'' ''SBG1''
          ''hg-15'' ''Centos 7'' ''key'' (requested (cloud first_errored deleted all_ok))) = Inr ()
   \<and> instances (snd (recover_instance_error (cloud first_errored deleted all_ok) ''vmi'' ''Test''
          ''SBG1'' ''hg-15'' ''Centos 7'' ''key'' (requested (cloud first_errored deleted all_ok))))
       = [\<lparr>inst_id = ''vmii'', inst_ip = None\<rparr>, \<lparr>inst_id = ''vmri'', inst_ip = None\<rparr>]"
  by code_simp

theorem recovery_replaces_errored_witness:
  "first_index ''vmi'' (instances (requested (cloud first_errored deleted all_ok))) = Some 0
   \<and> fst (recover_instance_error (cloud first_errored deleted all_ok) ''vmi'' ''Test'' ''SBG1''
          ''hg-15'' ''Centos 7'' ''key'' (requested (cloud first_errored deleted all_ok))) = Inr ()
   \<and> instances (snd (recover_instance_error (cloud first_errored deleted all_ok) ''vmi'' ''Test''
          ''SBG1'' ''hg-15'' ''Centos 7'' ''key'' (requested (cloud first_errored deleted all_ok))))
       = [\<lparr>inst_id = ''vmii'', inst_ip = None\<rparr>, \<lparr>inst_id = ''vmri'', inst_ip = None\<rparr>]"
  using recovery_replaces_errored[OF requested_first, of "cloud first_errored deleted all_ok"
      "''Test''" "''SBG1''" "''hg-15''" "''Centos 7''" "''key''"]
    requested_first requested_recovered
  by blast

text \<open>
  C3 as stated fails when the deletion fails: recovery raises after the third attempt,
  with no log line for the failure and no replacement.
\<close>

theorem recovery_aborts_counterexample:
  "fst (recover_instance_error (cloud first_errored undeletable all_ok) ''vmi'' ''Test'' ''SBG1''
          ''hg-15'' ''Centos 7'' ''key'' (requested (cloud first_errored undeletable all_ok)))
     = Inl (APIError NetworkError)
   \<and> instances (snd (recover_instance_error (cloud first_errored undeletable all_ok) ''vmi''
          ''Test'' ''SBG1'' ''hg-15'' ''Centos 7'' ''key''
          (requested (cloud first_errored undeletable all_ok))))
       = [\<lparr>inst_id = ''vmii'', inst_ip = None\<rparr>]
   \<and> new_events (requested (cloud first_errored undeletable all_ok))
        (snd (recover_instance_error (cloud first_errored undeletable all_ok) ''vmi''
          ''Test'' ''SBG1'' ''hg-15'' ''Centos 7'' ''key''
          (requested (cloud first_errored undeletable all_ok))))
       = [Log Info ''Encountered OVH Cloud ERROR - trying to replace failed instance'' [],
          Log Debug ''Removing instance {}'' [Str ''vmi''],
          HttpDelete ''/cloud/project/pid/instance/vmi'' (Some NetworkError),
          HttpDelete ''/cloud/project/pid/instance/vmi'' (Some NetworkError),
          HttpDelete ''/cloud/project/pid/instance/vmi'' (Some NetworkError)]"
  by code_simp

text \<open>
  C2 fails on the code when the provider reports a status other than BUILD, ACTIVE and
  ERROR for every instance still without an address: the loop ends normally after one
  pass, the entries have no address, and the process stops in \<open>write_config\<close> with
  KeyError 'ip'.
\<close>

theorem poll_loop_exits_without_ip:
  "fst (create_instances 3 (cloud shut_off deleted all_ok) (default_args 1 1) started)
     = Some (Inr ())
   \<and> instances (snd (create_instances 3 (cloud shut_off deleted all_ok) (default_args 1 1) started))
       = [\<lparr>inst_id = ''vmi'', inst_ip = None\<rparr>, \<lparr>inst_id = ''vmii'', inst_ip = None\<rparr>]
   \<and> count_list (trace (snd (create_instances 3 (cloud shut_off deleted all_ok) (default_args 1 1)
        started))) (Sleep 5) = 1
   \<and> fst (process 3 (cloud shut_off deleted all_ok) (default_args 1 1)) = Some (KeyError ''ip'')"
  by code_simp

end
